theory Spec2Isabelle
  imports Main
begin

section \<open>JavaScript values read by the link page\<close>

text \<open>
  Strings are character lists; the model is exact on ASCII text. A number is either \<open>NaN\<close>
  or a finite value held as the decimal \<open>Fin s e\<close>, standing for \<open>s * 10 ^ e\<close>: the
  shortest decimal that reads back as the double, which is the decimal the platform
  prints. Positive and negative zero are both \<open>Fin 0 e\<close>; the page never tells them apart
  (both are falsy, both print as 0). The infinities do not arise: the coordinates come
  from stored documents and the result of \<open>parseInt\<close> is held exactly. A value that may be
  \<open>null\<close> is an option.
\<close>

datatype number = NaN | Fin int int

definition truthy_number :: "number \<Rightarrow> bool" where
  "truthy_number x = (case x of NaN \<Rightarrow> False | Fin s e \<Rightarrow> s \<noteq> 0)"

definition truthy :: "number option \<Rightarrow> bool" where
  "truthy v = (case v of None \<Rightarrow> False | Some x \<Rightarrow> truthy_number x)"

definition truthy_string :: "string option \<Rightarrow> bool" where
  "truthy_string v = (case v of None \<Rightarrow> False | Some s \<Rightarrow> s \<noteq> [])"

subsection \<open>Printing numbers\<close>

definition digit_char :: "nat \<Rightarrow> char" where
  "digit_char d = char_of (48 + d)"

fun decimal :: "nat \<Rightarrow> string" where
  "decimal n = (if n < 10 then [digit_char n] else decimal (n div 10) @ [digit_char (n mod 10)])"

declare decimal.simps [simp del]

text \<open>
  \<open>Number::toString\<close> in radix 10. With \<open>ds\<close> the \<open>k\<close> significant digits of the value and
  \<open>n\<close> the position of the decimal point after the first digit of \<open>ds\<close>, the value is
  printed plainly for \<open>-6 < n \<le> 21\<close> and in exponent form otherwise.
\<close>

definition Number_toString :: "number \<Rightarrow> string" where
  "Number_toString x = (case x of
     NaN \<Rightarrow> ''NaN''
   | Fin s e \<Rightarrow>
       if s = 0 then ''0''
       else
         let every = decimal (nat \<bar>s\<bar>);
             ds = rev (dropWhile (\<lambda>c. c = CHR ''0'') (rev every));
             k = int (length ds);
             n = e + int (length every);
             body =
               (if k \<le> n \<and> n \<le> 21 then ds @ replicate (nat (n - k)) (CHR ''0'')
                else if 0 < n \<and> n \<le> 21 then take (nat n) ds @ ''.'' @ drop (nat n) ds
                else if - 6 < n \<and> n \<le> 0 then ''0.'' @ replicate (nat (- n)) (CHR ''0'') @ ds
                else take 1 ds @ (if k = 1 then [] else ''.'' @ drop 1 ds) @ ''e''
                       @ (if n - 1 < 0 then ''-'' else ''+'') @ decimal (nat \<bar>n - 1\<bar>))
         in (if s < 0 then ''-'' else []) @ body)"

subsection \<open>parseInt with radix 10\<close>

definition is_white :: "char \<Rightarrow> bool" where
  "is_white c = (c \<in> set [CHR 0x09, CHR 0x0A, CHR 0x0B, CHR 0x0C, CHR 0x0D, CHR 0x20])"

definition is_digit :: "char \<Rightarrow> bool" where
  "is_digit c = (48 \<le> (of_char c :: nat) \<and> (of_char c :: nat) \<le> 57)"

definition digits_value :: "string \<Rightarrow> nat" where
  "digits_value ds = foldl (\<lambda>a c. 10 * a + (of_char c - 48)) 0 ds"

text \<open>
  \<open>parseInt(str, 10)\<close>: leading white space is skipped, one sign is read, then the longest
  run of decimal digits; no digit at all gives \<open>NaN\<close>. The integer is held exactly (the
  platform rounds it to a double, which changes it only beyond \<open>2 ^ 53\<close>).
\<close>

definition parseInt :: "string \<Rightarrow> number" where
  "parseInt str =
     (let S = dropWhile is_white str;
          sign = (if S \<noteq> [] \<and> hd S = CHR ''-'' then - 1 else 1);
          S' = (if S \<noteq> [] \<and> (hd S = CHR ''+'' \<or> hd S = CHR ''-'') then tl S else S);
          Z = takeWhile is_digit S'
      in if Z = [] then NaN else Fin (sign * int (digits_value Z)) 0)"

subsection \<open>JSON.stringify\<close>

datatype json = JNull | JNumber number | JString string | JObject "(string \<times> json) list"

definition hex_digit :: "nat \<Rightarrow> char" where
  "hex_digit d = (if d < 10 then char_of (48 + d) else char_of (87 + d))"

text \<open>
  \<open>QuoteJSONString\<close>: the quote, the backslash and the control characters are escaped, the
  five with a short form by it and the others as \<open>\u00XX\<close>; every other character stands for
  itself.
\<close>

definition escape_char :: "char \<Rightarrow> string" where
  "escape_char c =
     (if c = CHR 0x08 then [CHR 0x5C, CHR ''b'']
      else if c = CHR 0x09 then [CHR 0x5C, CHR ''t'']
      else if c = CHR 0x0A then [CHR 0x5C, CHR ''n'']
      else if c = CHR 0x0C then [CHR 0x5C, CHR ''f'']
      else if c = CHR 0x0D then [CHR 0x5C, CHR ''r'']
      else if c = CHR 0x22 then [CHR 0x5C, CHR 0x22]
      else if c = CHR 0x5C then [CHR 0x5C, CHR 0x5C]
      else if (of_char c :: nat) < 32
        then [CHR 0x5C, CHR ''u'', CHR ''0'', CHR ''0'',
              hex_digit (of_char c div 16), hex_digit (of_char c mod 16)]
      else [c])"

definition quote :: "string \<Rightarrow> string" where
  "quote s = CHR 0x22 # concat (map escape_char s) @ [CHR 0x22]"

fun join :: "string \<Rightarrow> string list \<Rightarrow> string" where
  "join sep [] = []"
| "join sep [x] = x"
| "join sep (x # y # ys) = x @ sep @ join sep (y # ys)"

text \<open>A number that is not finite is written \<open>null\<close>.\<close>

fun JSON_stringify :: "json \<Rightarrow> string" where
  "JSON_stringify JNull = ''null''"
| "JSON_stringify (JNumber x) = (case x of NaN \<Rightarrow> ''null'' | Fin s e \<Rightarrow> Number_toString x)"
| "JSON_stringify (JString s) = quote s"
| "JSON_stringify (JObject kvs) =
     ''{'' @ join '','' (map (\<lambda>(k, v). quote k @ '':'' @ JSON_stringify v) kvs) @ ''}''"

subsection \<open>Date.prototype.toISOString\<close>

text \<open>
  A date is held by its UTC calendar fields, as \<open>getUTCFullYear\<close>, \<open>getUTCMonth\<close> (from 0),
  \<open>getUTCDate\<close> and the time-of-day getters return them.
\<close>

record date =
  fullYear :: int
  month :: nat
  day :: nat
  hours :: nat
  minutes :: nat
  seconds :: nat
  milliseconds :: nat

definition pad :: "nat \<Rightarrow> nat \<Rightarrow> string" where
  "pad w n = replicate (w - length (decimal n)) (CHR ''0'') @ decimal n"

definition toISOString :: "date \<Rightarrow> string" where
  "toISOString d =
     (if 0 \<le> fullYear d \<and> fullYear d \<le> 9999 then pad 4 (nat (fullYear d))
      else (if fullYear d < 0 then ''-'' else ''+'') @ pad 6 (nat \<bar>fullYear d\<bar>))
     @ ''-'' @ pad 2 (month d + 1) @ ''-'' @ pad 2 (day d)
     @ ''T'' @ pad 2 (hours d) @ '':'' @ pad 2 (minutes d) @ '':'' @ pad 2 (seconds d)
     @ ''.'' @ pad 3 (milliseconds d) @ ''Z''"

section \<open>The link page: documents, state, token and display\<close>

text \<open>
  A course document and a location document of the database, with the fields the page
  reads: \<open>course_id\<close> and \<open>location_id\<close> are the field \<open>$id\<close>, and \<open>createdAt\<close> is the
  field \<open>$createdAt\<close>, a time in milliseconds.
\<close>

record course =
  course_id :: string
  Programme :: string
  LinkStatus :: string

record location_doc =
  location_id :: string
  createdAt :: nat
  Latitude :: "number option"
  Longitude :: "number option"

record location =
  latitude :: "number option"
  longitude :: "number option"

text \<open>The state of the component \<open>CourseLinkPage\<close>: its five \<open>useState\<close> cells.\<close>

record viewer =
  course :: "course option"
  location :: location
  loading :: bool
  error :: "string option"
  currentTime :: string

definition json_of :: "number option \<Rightarrow> json" where
  "json_of v = (case v of None \<Rightarrow> JNull | Some x \<Rightarrow> JNumber x)"

text \<open>
  The object literal handed to \<open>JSON.stringify\<close> when the link is active. The spread
  \<open>{ ...location }\<close> copies the two fields of the location state in their order.
\<close>

definition qrObject :: "course \<Rightarrow> location \<Rightarrow> string \<Rightarrow> date \<Rightarrow> json" where
  "qrObject c loc semester now =
     JObject
       [(''courseId'', JString (course_id c)),
        (''semester'', JNumber (parseInt semester)),
        (''dateTime'', JString (toISOString now)),
        (''location'',
           if truthy (latitude loc) \<and> truthy (longitude loc)
           then JObject [(''latitude'', json_of (latitude loc)),
                         (''longitude'', json_of (longitude loc))]
           else JNull)]"

definition qrValue :: "viewer \<Rightarrow> string \<Rightarrow> date \<Rightarrow> string" where
  "qrValue st semester now =
     (case course st of
        None \<Rightarrow> []
      | Some c \<Rightarrow>
          if LinkStatus c = ''Active'' then JSON_stringify (qrObject c (location st) semester now)
          else [])"

text \<open>
  What the component returns: the spinner, the error card with its message, nothing, or
  the page. The page carries the code (\<open>qr\<close>, present only when the link is active), the
  inactive placeholder, the status label and the clock.
\<close>

datatype view =
    LoadingView
  | ErrorView string
  | NullView
  | PageView (title: string) (semester_line: string) (qr: "string option")
      (placeholder: bool) (status_label: string) (clock: string)

definition render :: "viewer \<Rightarrow> string \<Rightarrow> date \<Rightarrow> view" where
  "render st semester now =
     (if loading st then LoadingView
      else if truthy_string (error st) then ErrorView (the (error st))
      else case course st of
             None \<Rightarrow> NullView
           | Some c \<Rightarrow>
               let isLinkActive = (LinkStatus c = ''Active'')
               in PageView (Programme c) (''Semester '' @ semester)
                    (if isLinkActive then Some (qrValue st semester now) else None)
                    (\<not> isLinkActive)
                    (if isLinkActive then ''Active'' else ''Inactive'')
                    (currentTime st))"

definition displayed_code :: "view \<Rightarrow> string option" where
  "displayed_code v = (case v of PageView t s q p l c \<Rightarrow> q | _ \<Rightarrow> None)"

section \<open>The effect: initial load, live subscriptions, clock and teardown\<close>

subsection \<open>Route parameter and course lookup\<close>

text \<open>
  \<open>decodeURIComponent\<close> on ASCII text: \<open>%XX\<close> stands for the character with that code, and
  a \<open>%\<close> not followed by two hexadecimal digits raises \<open>URIError\<close> (the value \<open>None\<close>).
  Escapes of characters beyond ASCII are outside this model: it raises on them too.
\<close>

definition hex_value :: "char \<Rightarrow> nat option" where
  "hex_value c =
     (let n = (of_char c :: nat)
      in if 48 \<le> n \<and> n \<le> 57 then Some (n - 48)
         else if 65 \<le> n \<and> n \<le> 70 then Some (n - 55)
         else if 97 \<le> n \<and> n \<le> 102 then Some (n - 87)
         else None)"

fun decodeURIComponent :: "string \<Rightarrow> string option" where
  "decodeURIComponent [] = Some []"
| "decodeURIComponent (c # cs) =
     (if c \<noteq> CHR ''%'' then map_option ((#) c) (decodeURIComponent cs)
      else case cs of
             h1 # h2 # rest \<Rightarrow>
               (case (hex_value h1, hex_value h2) of
                  (Some a, Some b) \<Rightarrow>
                    if 16 * a + b < 128
                    then map_option ((#) (char_of (16 * a + b))) (decodeURIComponent rest)
                    else None
                | _ \<Rightarrow> None)
           | _ \<Rightarrow> None)"

definition toLowerCase :: "string \<Rightarrow> string" where
  "toLowerCase s =
     map (\<lambda>c. if 65 \<le> (of_char c :: nat) \<and> (of_char c :: nat) \<le> 90
              then char_of ((of_char c :: nat) + 32) else c) s"

subsection \<open>The latest location\<close>

text \<open>
  The service answers \<open>listDocuments\<close> with the queries \<open>orderDesc('$createdAt')\<close> and
  \<open>limit(1)\<close> from the documents of the location collection; \<open>fetchLatestLocation\<close> returns
  the first document of the answer, or \<open>null\<close> when the answer is empty. How the service
  orders two documents of equal creation time is its own choice; here the later one in
  the collection comes first.
\<close>

definition orderDesc_createdAt :: "location_doc list \<Rightarrow> location_doc list" where
  "orderDesc_createdAt docs = rev (sort_key createdAt docs)"

definition fetchLatestLocation :: "location_doc list \<Rightarrow> location_doc option" where
  "fetchLatestLocation collection =
     (let documents = take 1 (orderDesc_createdAt collection)
      in if length documents > 0 then Some (documents ! 0) else None)"

subsection \<open>Session state and events\<close>

record config =
  DATABASE_ID :: string
  COURSE_COLLECTION_ID :: string
  LOCATION_COLLECTION_ID :: string

definition course_channel :: "config \<Rightarrow> string \<Rightarrow> string" where
  "course_channel cfg cid =
     ''databases.'' @ DATABASE_ID cfg @ ''.collections.'' @ COURSE_COLLECTION_ID cfg
       @ ''.documents.'' @ cid"

definition location_channel :: "config \<Rightarrow> string" where
  "location_channel cfg =
     ''databases.'' @ DATABASE_ID cfg @ ''.collections.'' @ LOCATION_COLLECTION_ID cfg
       @ ''.documents''"

definition course_update_event :: "config \<Rightarrow> string \<Rightarrow> string" where
  "course_update_event cfg cid = course_channel cfg cid @ ''.update''"

definition location_create_event :: "config \<Rightarrow> string" where
  "location_create_event cfg = location_channel cfg @ ''.*.create''"

text \<open>
  A live subscription of the realtime client: the one on the document of the course found
  (its callback holds that course's identifier) or the one on the location collection.
  Calling the function that \<open>client.subscribe\<close> returned removes the subscription.
\<close>

datatype subscription = CourseSub string | LocationSub

text \<open>Where \<open>initializeData\<close> is suspended: at its first \<open>await\<close>, at its second, or finished.\<close>

datatype phase = FetchingCourses | FetchingLocation | Settled

text \<open>
  One mounted page: the component state, the progress of \<open>initializeData\<close>, the two
  variables \<open>unsubscribeCourse\<close> and \<open>unsubscribeLocation\<close> of the effect's closure, the
  subscriptions the realtime client holds, whether the interval timer is armed, and the
  number of re-queries started by the location callback that have not settled yet. A
  setter called after teardown is recorded in the component state all the same, although
  the framework no longer displays it.
\<close>

record session =
  ui :: viewer
  phase :: phase
  unsubscribeCourse :: "subscription option"
  unsubscribeLocation :: "subscription option"
  subscribed :: "subscription list"
  timeInterval :: bool
  requeries :: nat

text \<open>
  What can happen to a mounted page. A fetch settles with the documents of the collection
  at the time the service answered, or is rejected; a realtime message carries its event
  names and its payload; the timer ticks with the new clock text; \<open>Cleanup\<close> is the
  function the effect returned, called by the framework on teardown.
\<close>

datatype event =
    CoursesResolved "course list"
  | CoursesRejected
  | LatestLocationResolved "location_doc list"
  | LatestLocationRejected
  | CourseMessage string "string list" course
  | LocationMessage "string list" location_doc
  | RequeryResolved "location_doc list"
  | RequeryRejected
  | Tick string
  | Cleanup

definition not_found_message :: string where
  "not_found_message = ''The requested course could not be found.''"

definition load_failed_message :: string where
  "load_failed_message = ''Failed to load course data. Please try again later.''"

definition setLocation :: "location_doc \<Rightarrow> viewer \<Rightarrow> viewer" where
  "setLocation d st = st\<lparr>location := \<lparr>latitude = Latitude d, longitude = Longitude d\<rparr>\<rparr>"

text \<open>
  Mounting runs the effect up to the first \<open>await\<close>: the course fetch is in flight and the
  timer is armed.
\<close>

definition mount :: "string \<Rightarrow> session" where
  "mount t =
     \<lparr>ui = \<lparr>course = None, location = \<lparr>latitude = None, longitude = None\<rparr>,
            loading = True, error = None, currentTime = t\<rparr>,
      phase = FetchingCourses, unsubscribeCourse = None, unsubscribeLocation = None,
      subscribed = [], timeInterval = True, requeries = 0\<rparr>"

definition catch_and_finally :: "session \<Rightarrow> session" where
  "catch_and_finally s =
     s\<lparr>ui := (ui s)\<lparr>error := Some load_failed_message, loading := False\<rparr>, phase := Settled\<rparr>"

fun step :: "config \<Rightarrow> string \<Rightarrow> event \<Rightarrow> session \<Rightarrow> session" where
  "step cfg programme (CoursesResolved courses) s =
     (if phase s \<noteq> FetchingCourses then s
      else case decodeURIComponent programme of
             None \<Rightarrow> catch_and_finally s
           | Some d \<Rightarrow>
               let decodedProgramme = toLowerCase d
               in case find (\<lambda>c. toLowerCase (Programme c) = decodedProgramme) courses of
                    Some foundCourse \<Rightarrow>
                      s\<lparr>ui := (ui s)\<lparr>course := Some foundCourse\<rparr>,
                        unsubscribeCourse := Some (CourseSub (course_id foundCourse)),
                        subscribed := CourseSub (course_id foundCourse) # subscribed s,
                        phase := FetchingLocation\<rparr>
                  | None \<Rightarrow>
                      s\<lparr>ui := (ui s)\<lparr>error := Some not_found_message\<rparr>,
                        phase := FetchingLocation\<rparr>)"
| "step cfg programme CoursesRejected s =
     (if phase s \<noteq> FetchingCourses then s else catch_and_finally s)"
| "step cfg programme (LatestLocationResolved collection) s =
     (if phase s \<noteq> FetchingLocation then s
      else let st = (case fetchLatestLocation collection of
                       Some latestLocation \<Rightarrow> setLocation latestLocation (ui s)
                     | None \<Rightarrow> ui s)
           in s\<lparr>ui := st\<lparr>loading := False\<rparr>,
                unsubscribeLocation := Some LocationSub,
                subscribed := LocationSub # subscribed s,
                phase := Settled\<rparr>)"
| "step cfg programme LatestLocationRejected s =
     (if phase s \<noteq> FetchingLocation then s else catch_and_finally s)"
| "step cfg programme (CourseMessage cid names payload) s =
     (if CourseSub cid \<in> set (subscribed s) \<and> course_update_event cfg cid \<in> set names
      then s\<lparr>ui := (ui s)\<lparr>course := Some payload\<rparr>\<rparr>
      else s)"
| "step cfg programme (LocationMessage names payload) s =
     (if LocationSub \<in> set (subscribed s) \<and> location_create_event cfg \<in> set names
      then s\<lparr>requeries := requeries s + 1\<rparr>
      else s)"
| "step cfg programme (RequeryResolved collection) s =
     (if requeries s = 0 then s
      else case fetchLatestLocation collection of
             Some newLocation \<Rightarrow>
               s\<lparr>ui := setLocation newLocation (ui s), requeries := requeries s - 1\<rparr>
           | None \<Rightarrow> s\<lparr>requeries := requeries s - 1\<rparr>)"
| "step cfg programme RequeryRejected s =
     (if requeries s = 0 then s else s\<lparr>requeries := requeries s - 1\<rparr>)"
| "step cfg programme (Tick t) s =
     (if timeInterval s then s\<lparr>ui := (ui s)\<lparr>currentTime := t\<rparr>\<rparr> else s)"
| "step cfg programme Cleanup s =
     (let subs1 = (case unsubscribeCourse s of
                     Some u \<Rightarrow> remove1 u (subscribed s) | None \<Rightarrow> subscribed s);
          subs2 = (case unsubscribeLocation s of
                     Some u \<Rightarrow> remove1 u subs1 | None \<Rightarrow> subs1)
      in s\<lparr>subscribed := subs2, timeInterval := False\<rparr>)"

text \<open>The events of a session, handled one at a time in their order of arrival.\<close>

definition run :: "config \<Rightarrow> string \<Rightarrow> event list \<Rightarrow> session \<Rightarrow> session" where
  "run cfg programme evs s = foldl (\<lambda>s ev. step cfg programme ev s) s evs"

section \<open>The location manager of the settings page\<close>

text \<open>
  The state of \<open>LocationManager\<close>: the list of saved locations it shows, the two text fields
  of its form, and the identifier of the location being edited (\<open>null\<close> when the form adds).
\<close>

record form =
  Latitude_text :: string
  Longitude_text :: string

record manager =
  locations :: "location_doc list"
  formData :: form
  editingLocationId :: "string option"

text \<open>
  The service calls \<open>addLocation\<close>, \<open>updateLocation\<close> and \<open>deleteLocation\<close> are awaited; each
  handler below takes what its call settled with. A rejection is caught and shown as a
  toast, and leaves the state as it was.
\<close>

datatype 'a settled = Fulfilled 'a | Rejected string

definition empty_form :: form where
  "empty_form = \<lparr>Latitude_text = [], Longitude_text = []\<rparr>"

text \<open>
  \<open>handleEdit\<close> sets the identifier first and then fills the form with the printed
  coordinates; printing a \<open>null\<close> coordinate throws, after the identifier was set.
\<close>

definition handleEdit :: "location_doc \<Rightarrow> manager \<Rightarrow> manager" where
  "handleEdit loc m =
     (let m1 = m\<lparr>editingLocationId := Some (location_id loc)\<rparr>
      in case (Latitude loc, Longitude loc) of
           (Some la, Some lo) \<Rightarrow>
             m1\<lparr>formData := \<lparr>Latitude_text = Number_toString la,
                               Longitude_text = Number_toString lo\<rparr>\<rparr>
         | _ \<Rightarrow> m1)"

definition handleCancelEdit :: "manager \<Rightarrow> manager" where
  "handleCancelEdit m = m\<lparr>editingLocationId := None, formData := empty_form\<rparr>"

text \<open>
  \<open>handleSubmit\<close>: with an identifier under edit the call was \<open>updateLocation\<close> and the
  document it returned replaces the one of that identifier in the list; otherwise the
  call was \<open>addLocation\<close> and the new document is put in front of the list.
\<close>

definition handleSubmit :: "location_doc settled \<Rightarrow> manager \<Rightarrow> manager" where
  "handleSubmit response m =
     (case response of
        Rejected msg \<Rightarrow> m
      | Fulfilled doc \<Rightarrow>
          if truthy_string (editingLocationId m)
          then m\<lparr>locations :=
                    map (\<lambda>loc. if Some (location_id loc) = editingLocationId m then doc else loc)
                      (locations m),
                  formData := empty_form, editingLocationId := None\<rparr>
          else m\<lparr>locations := doc # locations m,
                  formData := empty_form, editingLocationId := None\<rparr>)"

text \<open>\<open>handleDelete\<close>: nothing happens unless the user confirms and the service call succeeds.\<close>

definition handleDelete :: "bool \<Rightarrow> unit settled \<Rightarrow> string \<Rightarrow> manager \<Rightarrow> manager" where
  "handleDelete confirmed response locationId m =
     (if confirmed
      then case response of
             Rejected msg \<Rightarrow> m
           | Fulfilled u \<Rightarrow>
               m\<lparr>locations := filter (\<lambda>loc. location_id loc \<noteq> locationId) (locations m)\<rparr>
      else m)"

section \<open>Reading a token back\<close>

text \<open>
  \<open>JSON.parse\<close>, for the texts \<open>JSON.stringify\<close> writes of the values above: strings with
  their escapes, numbers, \<open>null\<close> and objects, with no white space between the tokens.
  An escape \<open>\uXXXX\<close> beyond the one-byte characters is outside the model and is refused.
  Nested values and the members of an object are read with fuel, one unit for each; the
  length of the text is always enough.
\<close>

definition unescape :: "char \<Rightarrow> char option" where
  "unescape e =
     (if e = CHR ''b'' then Some (CHR 0x08)
      else if e = CHR ''t'' then Some (CHR 0x09)
      else if e = CHR ''n'' then Some (CHR 0x0A)
      else if e = CHR ''f'' then Some (CHR 0x0C)
      else if e = CHR ''r'' then Some (CHR 0x0D)
      else if e = CHR 0x22 then Some (CHR 0x22)
      else if e = CHR 0x5C then Some (CHR 0x5C)
      else if e = CHR ''/'' then Some (CHR ''/'')
      else None)"

definition hex4 :: "char \<Rightarrow> char \<Rightarrow> char \<Rightarrow> char \<Rightarrow> nat option" where
  "hex4 a b c d =
     (case (hex_value a, hex_value b, hex_value c, hex_value d) of
        (Some w, Some x, Some y, Some z) \<Rightarrow> Some (4096 * w + 256 * x + 16 * y + z)
      | _ \<Rightarrow> None)"

fun parse_chars :: "string \<Rightarrow> (string \<times> string) option" where
  "parse_chars [] = None"
| "parse_chars (c # cs) =
     (if c = CHR 0x22 then Some ([], cs)
      else if c = CHR 0x5C then
        (case cs of
           [] \<Rightarrow> None
         | e # r \<Rightarrow>
             if e = CHR ''u'' then
               (case r of
                  a # b # c # d # r' \<Rightarrow>
                    (case hex4 a b c d of
                       Some code \<Rightarrow>
                         if code < 256
                         then map_option (\<lambda>(s, rest). (char_of code # s, rest)) (parse_chars r')
                         else None
                     | None \<Rightarrow> None)
                | _ \<Rightarrow> None)
             else
               (case unescape e of
                  Some ch \<Rightarrow> map_option (\<lambda>(s, rest). (ch # s, rest)) (parse_chars r)
                | None \<Rightarrow> None))
      else if (of_char c :: nat) < 32 then None
      else map_option (\<lambda>(s, rest). (c # s, rest)) (parse_chars cs))"

definition parse_string :: "string \<Rightarrow> (string \<times> string) option" where
  "parse_string s = (case s of [] \<Rightarrow> None | c # cs \<Rightarrow> if c = CHR 0x22 then parse_chars cs else None)"

text \<open>A number without trailing zeros in its mantissa; zero is \<open>Fin 0 0\<close>.\<close>

definition normal :: "number \<Rightarrow> number" where
  "normal x = (case x of
     NaN \<Rightarrow> NaN
   | Fin s e \<Rightarrow>
       if s = 0 then Fin 0 0
       else
         let every = decimal (nat \<bar>s\<bar>);
             ds = rev (dropWhile (\<lambda>c. c = CHR ''0'') (rev every))
         in Fin (sgn s * int (digits_value ds)) (e + int (length every) - int (length ds)))"

definition parse_exponent :: "string \<Rightarrow> (int \<times> string) option" where
  "parse_exponent s =
     (case s of
        [] \<Rightarrow> Some (0, s)
      | c # r \<Rightarrow>
          if c = CHR ''e'' \<or> c = CHR ''E'' then
            (let negative = (r \<noteq> [] \<and> hd r = CHR ''-'');
                 r1 = (if r \<noteq> [] \<and> (hd r = CHR ''-'' \<or> hd r = CHR ''+'') then tl r else r);
                 ds = takeWhile is_digit r1
             in if ds = [] then None
                else Some ((if negative then - 1 else 1) * int (digits_value ds),
                           dropWhile is_digit r1))
          else Some (0, s))"

definition parse_fraction :: "string \<Rightarrow> (string \<times> string) option" where
  "parse_fraction s =
     (case s of
        [] \<Rightarrow> Some ([], s)
      | c # r \<Rightarrow>
          if c = CHR ''.'' then
            (let ds = takeWhile is_digit r
             in if ds = [] then None else Some (ds, dropWhile is_digit r))
          else Some ([], s))"

definition parse_number :: "string \<Rightarrow> (number \<times> string) option" where
  "parse_number s =
     (let negative = (s \<noteq> [] \<and> hd s = CHR ''-'');
          s1 = (if negative then tl s else s);
          ip = takeWhile is_digit s1
      in if ip = [] \<or> (1 < length ip \<and> hd ip = CHR ''0'') then None
         else case parse_fraction (dropWhile is_digit s1) of
                None \<Rightarrow> None
              | Some (fp, s2) \<Rightarrow>
                  (case parse_exponent s2 of
                     None \<Rightarrow> None
                   | Some (ex, s3) \<Rightarrow>
                       Some (normal (Fin ((if negative then - 1 else 1) * int (digits_value (ip @ fp)))
                                         (ex - int (length fp))),
                             s3)))"

fun parse_value :: "nat \<Rightarrow> string \<Rightarrow> (json \<times> string) option"
  and parse_members :: "nat \<Rightarrow> string \<Rightarrow> ((string \<times> json) list \<times> string) option" where
  "parse_value 0 s = None"
| "parse_value (Suc f) s =
     (case s of
        [] \<Rightarrow> None
      | c # cs \<Rightarrow>
          if c = CHR 0x22 then map_option (\<lambda>(t, rest). (JString t, rest)) (parse_string s)
          else if c = CHR ''{'' then
            (case cs of
               [] \<Rightarrow> None
             | c' # r \<Rightarrow>
                 if c' = CHR ''}'' then Some (JObject [], r)
                 else map_option (\<lambda>(kvs, rest). (JObject kvs, rest)) (parse_members f cs))
          else if c = CHR ''n'' then
            (if take 4 s = ''null'' then Some (JNull, drop 4 s) else None)
          else map_option (\<lambda>(x, rest). (JNumber x, rest)) (parse_number s))"
| "parse_members 0 s = None"
| "parse_members (Suc f) s =
     (case parse_string s of
        None \<Rightarrow> None
      | Some (k, s1) \<Rightarrow>
          (case s1 of
             [] \<Rightarrow> None
           | c # s2 \<Rightarrow>
               if c \<noteq> CHR '':'' then None
               else case parse_value f s2 of
                      None \<Rightarrow> None
                    | Some (v, s3) \<Rightarrow>
                        (case s3 of
                           [] \<Rightarrow> None
                         | d # s4 \<Rightarrow>
                             if d = CHR ''}'' then Some ([(k, v)], s4)
                             else if d = CHR '','' then
                               map_option (\<lambda>(kvs, rest). ((k, v) # kvs, rest)) (parse_members f s4)
                             else None)))"

definition JSON_parse :: "string \<Rightarrow> json option" where
  "JSON_parse s = (case parse_value (length s) s of Some (v, []) \<Rightarrow> Some v | _ \<Rightarrow> None)"

text \<open>
  What \<open>JSON.parse\<close> gives for the text of a value: the value, with \<open>null\<close> for a number
  that is not finite and every finite number without trailing zeros in its mantissa.
\<close>

fun canon :: "json \<Rightarrow> json" where
  "canon JNull = JNull"
| "canon (JNumber x) = (case x of NaN \<Rightarrow> JNull | Fin s e \<Rightarrow> JNumber (normal x))"
| "canon (JString s) = JString s"
| "canon (JObject kvs) = JObject (map (\<lambda>(k, v). (k, canon v)) kvs)"

text \<open>The text after a value inside an object: it is empty or starts at a comma or a closing brace.\<close>

definition delimited :: "string \<Rightarrow> bool" where
  "delimited rest = (case rest of [] \<Rightarrow> True | c # cs \<Rightarrow> c = CHR '','' \<or> c = CHR ''}'')"

text \<open>
  A value reads back: with fuel for the length of its text, the parser reads the value of
  \<open>canon\<close> from the front of the text and leaves what follows it.
\<close>

definition reads_back :: "json \<Rightarrow> bool" where
  "reads_back v =
     (\<forall>f rest. length (JSON_stringify v) \<le> f \<longrightarrow> delimited rest \<longrightarrow>
        parse_value f (JSON_stringify v @ rest) = Some (canon v, rest))"

text \<open>The text of one member of an object.\<close>

definition member_text :: "string \<times> json \<Rightarrow> string" where
  "member_text kv = quote (fst kv) @ '':'' @ JSON_stringify (snd kv)"

section \<open>Notions used to state the properties\<close>

text \<open>A coordinate that is \<open>null\<close> or zero.\<close>

definition absent_or_zero :: "number option \<Rightarrow> bool" where
  "absent_or_zero v = (case v of None \<Rightarrow> True | Some NaN \<Rightarrow> False | Some (Fin s e) \<Rightarrow> s = 0)"

text \<open>
  The shape \<open>YYYY-MM-DDTHH:mm:ss.sssZ\<close> of an ISO-8601 instant: in a pattern, \<open>d\<close> stands for
  one decimal digit and every other character for itself.
\<close>

definition digits_pattern :: "nat \<Rightarrow> string" where
  "digits_pattern w = replicate w (CHR ''d'')"

definition matches :: "string \<Rightarrow> string \<Rightarrow> bool" where
  "matches pattern s = list_all2 (\<lambda>p c. if p = CHR ''d'' then is_digit c else c = p) pattern s"

definition is_iso8601 :: "string \<Rightarrow> bool" where
  "is_iso8601 s = matches ''dddd-dd-ddTdd:dd:dd.dddZ'' s"

text \<open>The calendar fields of a date of the years 0 to 9999.\<close>

definition valid_date :: "date \<Rightarrow> bool" where
  "valid_date d =
     (0 \<le> fullYear d \<and> fullYear d \<le> 9999 \<and> month d < 12 \<and> 1 \<le> day d \<and> day d \<le> 31
      \<and> hours d < 24 \<and> minutes d < 60 \<and> seconds d < 60 \<and> milliseconds d < 1000)"

text \<open>
  The route parameter names no course of the list: it does not decode, or no course's
  \<open>Programme\<close> equals the decoded name when both are put in lower case.
\<close>

definition no_match :: "string \<Rightarrow> course list \<Rightarrow> bool" where
  "no_match programme courses =
     (case decodeURIComponent programme of
        None \<Rightarrow> True
      | Some d \<Rightarrow> find (\<lambda>c. toLowerCase (Programme c) = toLowerCase d) courses = None)"

text \<open>
  What holds of a session as long as no course was found: there is no course, no course
  subscription, and the error message is set as soon as the course fetch has settled.
\<close>

definition unmatched_inv :: "session \<Rightarrow> bool" where
  "unmatched_inv s =
     (course (ui s) = None \<and> unsubscribeCourse s = None
      \<and> (\<forall>cid. CourseSub cid \<notin> set (subscribed s))
      \<and> (case phase s of
            FetchingCourses \<Rightarrow> loading (ui s)
          | FetchingLocation \<Rightarrow> loading (ui s) \<and> error (ui s) = Some not_found_message
          | Settled \<Rightarrow> \<not> loading (ui s)
              \<and> (error (ui s) = Some not_found_message
                  \<or> error (ui s) = Some load_failed_message)))"

text \<open>The events of a burst of location publications: creation messages and settled re-queries.\<close>

definition location_traffic :: "event \<Rightarrow> bool" where
  "location_traffic ev =
     (case ev of LocationMessage names payload \<Rightarrow> True | RequeryResolved collection \<Rightarrow> True
      | RequeryRejected \<Rightarrow> True | _ \<Rightarrow> False)"

text \<open>
  What holds of a session until its teardown: the realtime client holds exactly the
  subscriptions whose release functions the closure variables hold, and the timer is armed.
\<close>

definition tracked :: "session \<Rightarrow> bool" where
  "tracked s =
     (subscribed s =
        (case unsubscribeLocation s of Some u \<Rightarrow> [u] | None \<Rightarrow> [])
        @ (case unsubscribeCourse s of Some u \<Rightarrow> [u] | None \<Rightarrow> [])
      \<and> (phase s = FetchingCourses \<longrightarrow> unsubscribeCourse s = None)
      \<and> (phase s \<noteq> Settled \<longrightarrow> unsubscribeLocation s = None)
      \<and> timeInterval s)"

subsection \<open>Sample data\<close>

definition cfg0 :: config where
  "cfg0 = \<lparr>DATABASE_ID = ''db'', COURSE_COLLECTION_ID = ''courses'',
           LOCATION_COLLECTION_ID = ''locations''\<rparr>"

definition bca :: course where
  "bca = \<lparr>course_id = ''c1'', Programme = ''BCA'', LinkStatus = ''Active''\<rparr>"

definition bca_inactive :: course where
  "bca_inactive = \<lparr>course_id = ''c1'', Programme = ''BCA'', LinkStatus = ''Inactive''\<rparr>"

text \<open>
  Three samples in Guwahati, created at times 5, 9 and 12, and one on the equator,
  created at time 15.
\<close>

definition sample1 :: location_doc where
  "sample1 = \<lparr>location_id = ''l1'', createdAt = 5,
              Latitude = Some (Fin 261445 (- 4)), Longitude = Some (Fin 917362 (- 4))\<rparr>"

definition sample2 :: location_doc where
  "sample2 = \<lparr>location_id = ''l2'', createdAt = 9,
              Latitude = Some (Fin 262 (- 1)), Longitude = Some (Fin 918 (- 1))\<rparr>"

definition sample3 :: location_doc where
  "sample3 = \<lparr>location_id = ''l3'', createdAt = 12,
              Latitude = Some (Fin 263 (- 1)), Longitude = Some (Fin 919 (- 1))\<rparr>"

definition equator :: location_doc where
  "equator = \<lparr>location_id = ''l4'', createdAt = 15,
              Latitude = Some (Fin 0 0), Longitude = Some (Fin 917362 (- 4))\<rparr>"

definition now0 :: date where
  "now0 = \<lparr>fullYear = 2025, month = 0, day = 5, hours = 9, minutes = 3, seconds = 7,
           milliseconds = 42\<rparr>"

definition showing :: "course \<Rightarrow> location_doc \<Rightarrow> viewer" where
  "showing c d =
     \<lparr>course = Some c, location = \<lparr>latitude = Latitude d, longitude = Longitude d\<rparr>,
      loading = False, error = None, currentTime = ''09:03 am''\<rparr>"

text \<open>A session whose initial load found the course \<open>bca\<close> and the sample \<open>sample1\<close>.\<close>

definition loaded :: session where
  "loaded = run cfg0 ''bca'' [CoursesResolved [bca], LatestLocationResolved [sample1]]
              (mount ''09:03 am'')"

text \<open>
  The same session after the sample on the equator was published: the creation message
  arrived and its re-query was answered from the log holding both samples.
\<close>

definition after_equator :: session where
  "after_equator =
     run cfg0 ''bca''
       [LocationMessage [location_create_event cfg0] equator, RequeryResolved [sample1, equator]]
       loaded"

text \<open>
  Two publications in quick succession, \<open>sample2\<close> and then \<open>sample3\<close>: both creation
  messages arrive, and the answer to the second re-query overtakes the answer to the first.
\<close>

definition overtaken :: session where
  "overtaken =
     run cfg0 ''bca''
       [LocationMessage [location_create_event cfg0] sample2,
        LocationMessage [location_create_event cfg0] sample3,
        RequeryResolved [sample1, sample2, sample3],
        RequeryResolved [sample1, sample2]]
       loaded"

text \<open>A page torn down while its course fetch is in flight; both fetches are answered later.\<close>

definition torn_down_early :: session where
  "torn_down_early =
     run cfg0 ''bca'' [Cleanup, CoursesResolved [bca], LatestLocationResolved [sample1]]
       (mount ''09:03 am'')"

text \<open>The document the service returns when \<open>sample1\<close> is edited to new coordinates.\<close>

definition sample1_moved :: location_doc where
  "sample1_moved = sample1\<lparr>Latitude := Some (Fin 10 0), Longitude := Some (Fin 20 0)\<rparr>"

definition manager0 :: manager where
  "manager0 = \<lparr>locations = [sample2, sample1], formData = empty_form, editingLocationId = None\<rparr>"

section \<open>Properties\<close>

subsection \<open>Supporting lemmas\<close>

lemma fetchLatestLocation_last:
  "fetchLatestLocation docs = (if docs = [] then None else Some (last (sort_key createdAt docs)))"
proof (cases "docs = []")
  case True
  then show ?thesis by (simp add: fetchLatestLocation_def orderDesc_createdAt_def)
next
  case False
  then have ne: "sort_key createdAt docs \<noteq> []"
    by (metis length_0_conv length_sort)
  then obtain x xs where r: "rev (sort_key createdAt docs) = x # xs"
    by (cases "rev (sort_key createdAt docs)") auto
  then have "last (sort_key createdAt docs) = x"
    by (metis last_rev hd_rev list.sel(1) rev_rev_ident)
  with False r show ?thesis
    by (simp add: fetchLatestLocation_def orderDesc_createdAt_def)
qed

lemma sorted_key_last_greatest:
  assumes "sorted (map f xs)" and "x \<in> set xs"
  shows "f x \<le> f (last xs)"
  using assms
proof (induction xs)
  case Nil
  then show ?case by simp
next
  case (Cons a xs)
  then show ?case by (cases "xs = []") auto
qed

lemma fetchLatestLocation_greatest:
  assumes "fetchLatestLocation docs = Some d"
  shows "d \<in> set docs \<and> (\<forall>d' \<in> set docs. createdAt d' \<le> createdAt d)"
proof -
  from assms have ne: "docs \<noteq> []" and d: "d = last (sort_key createdAt docs)"
    by (auto simp: fetchLatestLocation_last split: if_splits)
  have s: "set (sort_key createdAt docs) = set docs" by simp
  from ne have "sort_key createdAt docs \<noteq> []"
    by (metis length_0_conv length_sort)
  then have "d \<in> set docs" using d last_in_set s by metis
  moreover have "\<forall>d' \<in> set docs. createdAt d' \<le> createdAt d"
    using sorted_key_last_greatest [of createdAt "sort_key createdAt docs"] d s
    by (metis sorted_sort_key)
  ultimately show ?thesis by simp
qed

lemma is_digit_digit_char: "d < 10 \<Longrightarrow> is_digit (digit_char d)"
  by (simp add: is_digit_def digit_char_def)

lemma decimal_digits: "list_all is_digit (decimal n)"
proof (induction n rule: decimal.induct)
  case (1 n)
  then show ?case
    by (subst decimal.simps) (auto simp: is_digit_digit_char)
qed

lemma decimal_length: "n < 10 ^ w \<Longrightarrow> 0 < w \<Longrightarrow> length (decimal n) \<le> w"
proof (induction n arbitrary: w rule: decimal.induct)
  case (1 n)
  show ?case
  proof (cases "n < 10")
    case True
    then show ?thesis using "1.prems" by (subst decimal.simps) simp
  next
    case False
    have "w \<noteq> 1" using False "1.prems" by auto
    with "1.prems" obtain v where v: "w = Suc v" "0 < v" by (cases w) auto
    with "1.prems" have "n div 10 < 10 ^ v" by (simp add: less_mult_imp_div_less mult.commute)
    with "1.IH" [OF False _ v(2)] have "length (decimal (n div 10)) \<le> v" by simp
    with False v show ?thesis by (subst decimal.simps) simp
  qed
qed

lemma pad_matches:
  assumes "n < 10 ^ w" and "0 < w"
  shows "matches (digits_pattern w) (pad w n)"
proof -
  have l: "length (pad w n) = w"
    using decimal_length [OF assms] by (simp add: pad_def)
  have "is_digit (CHR ''0'')" by (simp add: is_digit_def)
  then have "list_all is_digit (pad w n)"
    using decimal_digits [of n] by (auto simp: pad_def list_all_iff)
  with l show ?thesis
    by (simp add: matches_def digits_pattern_def list_all2_conv_all_nth list_all_length)
qed

lemma matches_append: "matches p s \<Longrightarrow> matches q t \<Longrightarrow> matches (p @ q) (s @ t)"
  by (simp add: matches_def list_all2_appendI)

lemma matches_Cons: "c \<noteq> CHR ''d'' \<Longrightarrow> matches p s \<Longrightarrow> matches (c # p) (c # s)"
  by (simp add: matches_def)

lemma matches_Nil: "matches [] []"
  by (simp add: matches_def)

lemma iso_pattern_split:
  "''dddd-dd-ddTdd:dd:dd.dddZ'' =
     digits_pattern 4 @ ''-'' @ digits_pattern 2 @ ''-'' @ digits_pattern 2 @ ''T''
     @ digits_pattern 2 @ '':'' @ digits_pattern 2 @ '':'' @ digits_pattern 2 @ ''.''
     @ digits_pattern 3 @ ''Z''"
  by (simp add: digits_pattern_def numeral_eq_Suc)

lemma toISOString_iso8601:
  assumes "valid_date d"
  shows "is_iso8601 (toISOString d)"
proof -
  from assms have y: "nat (fullYear d) < 10 ^ 4" and m: "month d + 1 < 10 ^ 2"
    and dd: "day d < 10 ^ 2" and h: "hours d < 10 ^ 2" and mi: "minutes d < 10 ^ 2"
    and sec: "seconds d < 10 ^ 2" and ms: "milliseconds d < 10 ^ 3"
    by (auto simp: valid_date_def)
  from assms have yr: "0 \<le> fullYear d \<and> fullYear d \<le> 9999" by (simp add: valid_date_def)
  show ?thesis
    unfolding is_iso8601_def iso_pattern_split toISOString_def
    using yr m
    by (auto intro!: matches_append matches_Cons matches_Nil pad_matches y dd h mi sec ms)
qed

lemma run_append: "run cfg programme (xs @ ys) s = run cfg programme ys (run cfg programme xs s)"
  by (simp add: run_def)

subsection \<open>Evaluation of the printing functions on numerals\<close>

lemma digit_char_simps:
  "digit_char 0 = CHR ''0''" "digit_char 1 = CHR ''1''" "digit_char (Suc 0) = CHR ''1''"
  "digit_char 2 = CHR ''2''" "digit_char 3 = CHR ''3''" "digit_char 4 = CHR ''4''"
  "digit_char 5 = CHR ''5''" "digit_char 6 = CHR ''6''" "digit_char 7 = CHR ''7''"
  "digit_char 8 = CHR ''8''" "digit_char 9 = CHR ''9''"
  by code_simp+

lemma decimal_numeral:
  "decimal (numeral k) =
     (if numeral k < (10::nat) then [digit_char (numeral k)]
      else decimal (numeral k div 10) @ [digit_char (numeral k mod 10)])"
  "decimal 0 = ''0''" "decimal 1 = ''1''" "decimal (Suc 0) = ''1''"
  by (subst decimal.simps, simp add: digit_char_simps)+

lemmas eval_number = Number_toString_def decimal_numeral digit_char_simps Let_def

lemmas eval_token =
  qrValue_def qrObject_def json_of_def truthy_def truthy_number_def toISOString_def pad_def
  eval_number parseInt_def is_white_def is_digit_def digits_value_def quote_def escape_char_def

lemma loaded_eval:
  "loaded = \<lparr>ui = showing bca sample1,
              phase = Settled, unsubscribeCourse = Some (CourseSub ''c1''),
              unsubscribeLocation = Some LocationSub,
              subscribed = [LocationSub, CourseSub ''c1''], timeInterval = True,
              requeries = 0\<rparr>"
  by code_simp

lemma stringify_token:
  "JSON_stringify (JObject [(''courseId'', a), (''semester'', b), (''dateTime'', c), (''location'', d)])
   = ''{'' @ quote ''courseId'' @ '':'' @ JSON_stringify a
     @ '','' @ quote ''semester'' @ '':'' @ JSON_stringify b
     @ '','' @ quote ''dateTime'' @ '':'' @ JSON_stringify c
     @ '','' @ quote ''location'' @ '':'' @ JSON_stringify d @ ''}''"
  by simp

lemma active_qrValue:
  "course st = Some c \<Longrightarrow> LinkStatus c = ''Active'' \<Longrightarrow>
   qrValue st semester now = JSON_stringify (qrObject c (location st) semester now)"
  by (simp add: qrValue_def)

lemma absent_or_zero_falsy: "absent_or_zero v \<Longrightarrow> \<not> truthy v"
  by (auto simp: absent_or_zero_def truthy_def truthy_number_def split: option.splits number.splits)

subsection \<open>JSON.parse reads back what JSON.stringify writes\<close>

lemma hex_value_hex_digit: "d < 16 \<Longrightarrow> hex_value (hex_digit d) = Some d"
  by (auto simp: hex_value_def hex_digit_def Let_def)

lemma hex_value_zero: "hex_value (CHR ''0'') = Some 0"
  by (simp add: hex_value_def)

lemma parse_chars_escape:
  "parse_chars (escape_char c @ t) = map_option (\<lambda>(s, rest). (c # s, rest)) (parse_chars t)"
proof -
  consider (short) "c \<in> {CHR 0x08, CHR 0x09, CHR 0x0A, CHR 0x0C, CHR 0x0D, CHR 0x22, CHR 0x5C}"
    | (control) "c \<notin> {CHR 0x08, CHR 0x09, CHR 0x0A, CHR 0x0C, CHR 0x0D, CHR 0x22, CHR 0x5C}"
        "(of_char c :: nat) < 32"
    | (plain) "c \<notin> {CHR 0x08, CHR 0x09, CHR 0x0A, CHR 0x0C, CHR 0x0D, CHR 0x22, CHR 0x5C}"
        "\<not> (of_char c :: nat) < 32"
    by blast
  then show ?thesis
  proof cases
    case short
    then show ?thesis by (auto simp: escape_char_def unescape_def)
  next
    case control
    let ?n = "of_char c :: nat"
    from control have e: "escape_char c =
        [CHR 0x5C, CHR ''u'', CHR ''0'', CHR ''0'', hex_digit (?n div 16), hex_digit (?n mod 16)]"
      by (simp add: escape_char_def)
    from control have "?n div 16 < 16" by simp
    then have h: "hex4 (CHR ''0'') (CHR ''0'') (hex_digit (?n div 16)) (hex_digit (?n mod 16)) = Some ?n"
      by (simp add: hex4_def hex_value_zero hex_value_hex_digit)
    have "?n < 256" using control by simp
    then show ?thesis unfolding e by (simp add: h)
  next
    case plain
    then show ?thesis by (simp add: escape_char_def)
  qed
qed

lemma parse_chars_escaped:
  "parse_chars (concat (map escape_char s) @ CHR 0x22 # rest) = Some (s, rest)"
  by (induction s) (simp_all add: parse_chars_escape)

lemma parse_string_quote: "parse_string (quote s @ rest) = Some (s, rest)"
  by (simp add: parse_string_def quote_def parse_chars_escaped)

lemma digit_of_digit_char: "d < 10 \<Longrightarrow> (of_char (digit_char d) :: nat) - 48 = d"
  by (simp add: digit_char_def)

lemma digit_char_of_digit: "is_digit c \<Longrightarrow> digit_char (of_char c - 48) = c"
  by (simp add: digit_char_def is_digit_def)

lemma is_digit_less: "is_digit c \<Longrightarrow> (of_char c :: nat) - 48 < 10"
  by (auto simp: is_digit_def)

lemma digits_value_snoc: "digits_value (xs @ [c]) = 10 * digits_value xs + (of_char c - 48)"
  by (simp add: digits_value_def)

lemma digits_value_Nil: "digits_value [] = 0"
  by (simp add: digits_value_def)

lemma digits_value_append:
  "digits_value (xs @ ys) = digits_value xs * 10 ^ length ys + digits_value ys"
proof (induction ys rule: rev_induct)
  case Nil
  then show ?case by (simp add: digits_value_Nil)
next
  case (snoc c ys)
  have "digits_value (xs @ ys @ [c]) = 10 * digits_value (xs @ ys) + (of_char c - 48)"
    using digits_value_snoc [of "xs @ ys" c] by simp
  with snoc show ?case by (simp add: digits_value_snoc algebra_simps)
qed

lemma foldl_zeros:
  "foldl (\<lambda>a c. 10 * a + (of_char c - 48)) (a::nat) (replicate j (CHR ''0'')) = a * 10 ^ j"
  by (induction j arbitrary: a) simp_all

lemma digits_value_zeros: "digits_value (replicate j (CHR ''0'')) = 0"
  by (simp add: digits_value_def foldl_zeros)

lemma digits_value_leading_zeros: "digits_value (replicate j (CHR ''0'') @ xs) = digits_value xs"
  by (simp add: digits_value_append digits_value_zeros)

lemma digits_value_trailing_zeros:
  "digits_value (xs @ replicate j (CHR ''0'')) = digits_value xs * 10 ^ j"
  by (simp add: digits_value_append digits_value_zeros)

lemma digits_value_decimal: "digits_value (decimal n) = n"
proof (induction n rule: decimal.induct)
  case (1 n)
  show ?case
  proof (cases "n < 10")
    case True
    then show ?thesis
      by (subst decimal.simps) (simp add: digits_value_def digit_of_digit_char)
  next
    case False
    with 1 have "digits_value (decimal (n div 10)) = n div 10" by simp
    with False show ?thesis
      by (subst decimal.simps) (simp add: digits_value_snoc digit_of_digit_char)
  qed
qed

lemma decimal_nonempty: "decimal n \<noteq> []"
  by (subst decimal.simps) simp

lemma hd_decimal: "0 < n \<Longrightarrow> hd (decimal n) \<noteq> CHR ''0''"
proof (induction n rule: decimal.induct)
  case (1 n)
  show ?case
  proof (cases "n < 10")
    case True
    with "1.prems" show ?thesis
      by (subst decimal.simps) (simp add: digit_char_def char_of_eq_iff take_bit_eq_mod)
  next
    case False
    with 1 have "hd (decimal (n div 10)) \<noteq> CHR ''0''" by simp
    with False decimal_nonempty [of "n div 10"] show ?thesis
      by (subst decimal.simps) simp
  qed
qed

lemma digits_value_positive:
  "list_all is_digit xs \<Longrightarrow> xs \<noteq> [] \<Longrightarrow> hd xs \<noteq> CHR ''0'' \<Longrightarrow> 0 < digits_value xs"
proof (induction xs rule: rev_induct)
  case Nil
  then show ?case by simp
next
  case (snoc c xs)
  show ?case
  proof (cases "xs = []")
    case True
    with snoc.prems have "is_digit c" "c \<noteq> CHR ''0''" by simp_all
    have "(of_char c :: nat) \<noteq> 48"
    proof
      assume "(of_char c :: nat) = 48"
      then have "(of_char c :: nat) = of_char (CHR ''0'')" by simp
      then have "c = CHR ''0''" by (simp only: of_char_eq_iff)
      with \<open>c \<noteq> CHR ''0''\<close> show False by simp
    qed
    with \<open>is_digit c\<close> True show ?thesis by (simp add: digits_value_def is_digit_def)
  next
    case False
    with snoc have "0 < digits_value xs" by simp
    then show ?thesis by (simp add: digits_value_snoc)
  qed
qed

lemma decimal_digits_value:
  "list_all is_digit xs \<Longrightarrow> xs \<noteq> [] \<Longrightarrow> hd xs \<noteq> CHR ''0'' \<Longrightarrow> decimal (digits_value xs) = xs"
proof (induction xs rule: rev_induct)
  case Nil
  then show ?case by simp
next
  case (snoc c xs)
  from snoc.prems have c: "is_digit c" by simp
  show ?case
  proof (cases "xs = []")
    case True
    with c show ?thesis
      by (subst decimal.simps)
        (simp add: digits_value_def is_digit_less digit_char_of_digit)
  next
    case False
    with snoc.prems have xs: "list_all is_digit xs" "hd xs \<noteq> CHR ''0''" by simp_all
    with False snoc.IH have ih: "decimal (digits_value xs) = xs" by simp
    from digits_value_positive [OF xs(1) False xs(2)] have "\<not> 10 * digits_value xs + (of_char c - 48) < 10"
      by simp
    moreover have "(10 * digits_value xs + (of_char c - 48)) div 10 = digits_value xs"
      using is_digit_less [OF c] by simp
    moreover have "(10 * digits_value xs + (of_char c - 48)) mod 10 = of_char c - 48"
      using is_digit_less [OF c] by simp
    ultimately show ?thesis
      using ih c by (subst decimal.simps) (simp add: digits_value_snoc digit_char_of_digit)
  qed
qed

lemma all_same_replicate: "\<forall>x \<in> set ys. x = c \<Longrightarrow> ys = replicate (length ys) c"
  by (induction ys) auto

lemma strip_decompose:
  fixes xs :: string
  defines "ds \<equiv> rev (dropWhile (\<lambda>c. c = CHR ''0'') (rev xs))"
  shows "xs = ds @ replicate (length xs - length ds) (CHR ''0'')"
proof -
  let ?P = "\<lambda>c. c = CHR ''0''"
  let ?t = "takeWhile ?P (rev xs)"
  let ?d = "dropWhile ?P (rev xs)"
  have e: "rev ?d @ rev ?t = xs"
  proof -
    have "rev ?d @ rev ?t = rev (?t @ ?d)" by (simp only: rev_append)
    also have "\<dots> = rev (rev xs)" by (simp only: takeWhile_dropWhile_id)
    finally show ?thesis by simp
  qed
  define n where "n = length (rev ?t)"
  have "\<forall>x \<in> set (rev ?t). x = CHR ''0''"
    by (auto dest: set_takeWhileD)
  then have "rev ?t = replicate (length (rev ?t)) (CHR ''0'')"
    by (rule all_same_replicate)
  then have r: "rev ?t = replicate n (CHR ''0'')"
    by (simp only: n_def)
  have x: "xs = ds @ replicate n (CHR ''0'')"
    unfolding ds_def r [symmetric] by (simp only: e)
  then have "length xs = length ds + n" by (metis length_append length_replicate)
  then have "n = length xs - length ds" by simp
  with x show ?thesis by (simp only:)
qed

lemma strip_props:
  fixes xs :: string
  defines "ds \<equiv> rev (dropWhile (\<lambda>c. c = CHR ''0'') (rev xs))"
  assumes "xs \<noteq> []" and "hd xs \<noteq> CHR ''0''"
  shows "ds \<noteq> [] \<and> hd ds = hd xs \<and> last ds \<noteq> CHR ''0''"
proof -
  let ?P = "\<lambda>c. c = CHR ''0''"
  from assms(2) have "hd xs \<in> set (rev xs)" by simp
  with assms(3) have "\<exists>x \<in> set (rev xs). \<not> ?P x" by blast
  then have d: "dropWhile ?P (rev xs) \<noteq> []" by (simp add: dropWhile_eq_Nil_conv)
  then have ne: "ds \<noteq> []" by (simp add: ds_def)
  from d have "\<not> ?P (hd (dropWhile ?P (rev xs)))" by (rule hd_dropWhile)
  then have l: "last ds \<noteq> CHR ''0''" using d by (simp add: ds_def last_rev)
  have "xs = ds @ replicate (length xs - length ds) (CHR ''0'')"
    unfolding ds_def by (rule strip_decompose)
  then have "hd xs = hd (ds @ replicate (length xs - length ds) (CHR ''0''))"
    by (rule arg_cong)
  with ne have "hd xs = hd ds" by simp
  with ne l show ?thesis by simp
qed

lemma strip_zeros:
  assumes "ds \<noteq> []" and "last ds \<noteq> CHR ''0''"
  shows "rev (dropWhile (\<lambda>c. c = CHR ''0'') (rev (ds @ replicate j (CHR ''0'')))) = ds"
proof -
  let ?P = "\<lambda>c. c = CHR ''0''"
  from assms(1) have "hd (rev ds) = last ds" by (simp add: hd_rev)
  with assms obtain x xs where r: "rev ds = x # xs" "x \<noteq> CHR ''0''"
    by (cases "rev ds") simp_all
  have "dropWhile ?P (rev (ds @ replicate j (CHR ''0''))) = dropWhile ?P (replicate j (CHR ''0'') @ rev ds)"
    by simp
  also have "\<dots> = dropWhile ?P (rev ds)"
    by (rule dropWhile_append2) simp
  also have "\<dots> = rev ds" using r by simp
  finally show ?thesis by simp
qed

lemma normal_raw:
  assumes "list_all is_digit ds" and "ds \<noteq> []" and "hd ds \<noteq> CHR ''0''"
    and "last ds \<noteq> CHR ''0''" and "v = digits_value ds * 10 ^ j" and "\<sigma> = 1 \<or> \<sigma> = - 1"
  shows "normal (Fin (\<sigma> * int v) E) = Fin (\<sigma> * int (digits_value ds)) (E + int j)"
proof -
  let ?xs = "ds @ replicate j (CHR ''0'')"
  have z: "is_digit (CHR ''0'')" by (simp add: is_digit_def)
  have v: "v = digits_value ?xs" using assms(5) by (simp add: digits_value_trailing_zeros)
  have dig: "list_all is_digit ?xs" using assms(1) z by (auto simp: list_all_iff)
  have hd: "hd ?xs \<noteq> CHR ''0''" using assms(2,3) by simp
  have ne: "?xs \<noteq> []" using assms(2) by simp
  have pos: "0 < v" unfolding v using dig ne hd by (rule digits_value_positive)
  have dec: "decimal v = ?xs" unfolding v using dig ne hd by (rule decimal_digits_value)
  have st: "rev (dropWhile (\<lambda>c. c = CHR ''0'') (rev (decimal v))) = ds"
    unfolding dec using assms(2,4) by (rule strip_zeros)
  have len: "int (length (decimal v)) - int (length ds) = int j"
    unfolding dec by simp
  have "length (rev (dropWhile (\<lambda>c. c = CHR ''0'') (rev (decimal v)))) = length ds"
    by (simp only: st)
  then have len2: "length (dropWhile (\<lambda>c. c = CHR ''0'') (rev (decimal v))) = length ds"
    by simp
  from assms(6) show ?thesis
  proof
    assume "\<sigma> = 1"
    with pos show ?thesis
      unfolding normal_def by (simp add: Let_def st len len2)
  next
    assume "\<sigma> = - 1"
    with pos show ?thesis
      unfolding normal_def by (simp add: Let_def st len len2)
  qed
qed

lemma decimal_stripped:
  assumes "0 < m"
  obtains ds z where "decimal m = ds @ replicate z (CHR ''0'')"
    and "rev (dropWhile (\<lambda>c. c = CHR ''0'') (rev (decimal m))) = ds"
    and "list_all is_digit ds" and "ds \<noteq> []" and "hd ds \<noteq> CHR ''0''"
    and "last ds \<noteq> CHR ''0''" and "m = digits_value ds * 10 ^ z"
proof -
  define ds where "ds = rev (dropWhile (\<lambda>c. c = CHR ''0'') (rev (decimal m)))"
  define z where "z = length (decimal m) - length ds"
  have d: "decimal m = ds @ replicate z (CHR ''0'')"
    unfolding ds_def z_def by (rule strip_decompose)
  from strip_props [OF decimal_nonempty hd_decimal [OF assms]]
  have p: "ds \<noteq> []" "hd ds = hd (decimal m)" "last ds \<noteq> CHR ''0''"
    unfolding ds_def by blast+
  have h: "hd ds \<noteq> CHR ''0''" using p(2) hd_decimal [OF assms] by simp
  have "list_all is_digit (ds @ replicate z (CHR ''0''))"
    using decimal_digits [of m] by (simp only: d)
  then have dig: "list_all is_digit ds" by simp
  have "digits_value (ds @ replicate z (CHR ''0'')) = m"
    using digits_value_decimal [of m] by (simp only: d)
  then have v: "m = digits_value ds * 10 ^ z"
    by (simp only: digits_value_trailing_zeros)
  show thesis
    by (rule that [OF d _ dig p(1) h p(3) v]) (simp only: ds_def)
qed

lemma delimited_no_digit: "delimited rest \<Longrightarrow> rest = [] \<or> \<not> is_digit (hd rest)"
  by (cases rest) (auto simp: delimited_def is_digit_def)

lemma take_digits:
  assumes "list_all is_digit ds" and "T = [] \<or> \<not> is_digit (hd T)"
  shows "takeWhile is_digit (ds @ T) = ds" and "dropWhile is_digit (ds @ T) = T"
proof -
  from assms(1) have a: "\<And>x. x \<in> set ds \<Longrightarrow> is_digit x" by (simp add: list_all_iff)
  from assms(2) have t: "takeWhile is_digit T = []" and d: "dropWhile is_digit T = T"
    by (cases T; simp)+
  show "takeWhile is_digit (ds @ T) = ds"
    using takeWhile_append2 [of ds is_digit T] a t by simp
  show "dropWhile is_digit (ds @ T) = T"
    using dropWhile_append2 [of ds is_digit T] a d by simp
qed

lemma parse_exponent_none: "delimited rest \<Longrightarrow> parse_exponent rest = Some (0, rest)"
  by (cases rest) (auto simp: parse_exponent_def delimited_def)

lemma parse_exponent_some:
  assumes "delimited rest" and "sg = CHR ''-'' \<or> sg = CHR ''+''"
  shows "parse_exponent (CHR ''e'' # sg # decimal x @ rest)
         = Some ((if sg = CHR ''-'' then - 1 else 1) * int x, rest)"
proof -
  note td = take_digits [OF decimal_digits [of x] delimited_no_digit [OF assms(1)]]
  from assms(2) show ?thesis
    by (auto simp: parse_exponent_def Let_def td decimal_nonempty digits_value_decimal)
qed

lemma parse_fraction_none: "T = [] \<or> hd T \<noteq> CHR ''.'' \<Longrightarrow> parse_fraction T = Some ([], T)"
  by (cases T) (auto simp: parse_fraction_def)

lemma parse_fraction_some:
  assumes "list_all is_digit fp" and "fp \<noteq> []" and "T = [] \<or> \<not> is_digit (hd T)"
  shows "parse_fraction (CHR ''.'' # fp @ T) = Some (fp, T)"
  using assms(2) by (simp add: parse_fraction_def Let_def take_digits [OF assms(1,3)])

lemma parse_number_general:
  assumes "list_all is_digit ip" and "ip \<noteq> []" and "length ip = 1 \<or> hd ip \<noteq> CHR ''0''"
    and "T = [] \<or> \<not> is_digit (hd T)"
    and "parse_fraction T = Some (fp, T2)"
    and "parse_exponent T2 = Some (ex, rest)"
  shows "parse_number ((if neg then ''-'' else []) @ ip @ T)
         = Some (normal (Fin ((if neg then - 1 else 1) * int (digits_value (ip @ fp)))
                             (ex - int (length fp))), rest)"
proof -
  note td = take_digits [OF assms(1,4)]
  from assms(1,2) have "is_digit (hd ip)" by (cases ip) simp_all
  then have h: "hd ip \<noteq> CHR ''-''" by (auto simp: is_digit_def)
  have c: "\<not> (ip = [] \<or> 1 < length ip \<and> hd ip = CHR ''0'')"
    using assms(2,3) by auto
  show ?thesis
  proof (cases neg)
    case True
    then show ?thesis
      unfolding parse_number_def using c by (simp add: Let_def td assms(5,6))
  next
    case False
    have "hd (ip @ T) \<noteq> CHR ''-''" using assms(2) h by simp
    with False show ?thesis
      unfolding parse_number_def using c assms(2) by (simp add: Let_def td assms(5,6))
  qed
qed

lemma delimited_no_point: "delimited rest \<Longrightarrow> rest = [] \<or> hd rest \<noteq> CHR ''.''"
  by (cases rest) (auto simp: delimited_def)

lemma is_digit_zero: "is_digit (CHR ''0'')"
  by (simp add: is_digit_def)

lemma parse_plain_integer:
  assumes "list_all is_digit ds" and "ds \<noteq> []" and "hd ds \<noteq> CHR ''0''" and "delimited rest"
  shows "parse_number ((if neg then ''-'' else []) @ (ds @ replicate j (CHR ''0'')) @ rest)
         = Some (normal (Fin ((if neg then - 1 else 1)
                               * int (digits_value (ds @ replicate j (CHR ''0'')))) 0), rest)"
proof -
  have 1: "list_all is_digit (ds @ replicate j (CHR ''0''))"
    using assms(1) is_digit_zero by (auto simp: list_all_iff)
  have 2: "ds @ replicate j (CHR ''0'') \<noteq> []" using assms(2) by simp
  have 3: "length (ds @ replicate j (CHR ''0'')) = 1 \<or> hd (ds @ replicate j (CHR ''0'')) \<noteq> CHR ''0''"
    using assms(2,3) by simp
  from parse_number_general [OF 1 2 3 delimited_no_digit [OF assms(4)]
      parse_fraction_none [OF delimited_no_point [OF assms(4)]]
      parse_exponent_none [OF assms(4)], of neg]
  show ?thesis by simp
qed

lemma parse_point_inside:
  assumes "list_all is_digit ds" and "hd ds \<noteq> CHR ''0''" and "0 < i" and "i < length ds"
    and "delimited rest"
  shows "parse_number ((if neg then ''-'' else []) @ take i ds @ (CHR ''.'' # drop i ds @ rest))
         = Some (normal (Fin ((if neg then - 1 else 1) * int (digits_value ds))
                             (- int (length ds - i))), rest)"
proof -
  from assms(1) have 1: "list_all is_digit (take i ds)" and f: "list_all is_digit (drop i ds)"
    by (auto simp: list_all_iff dest: in_set_takeD in_set_dropD)
  from assms(3,4) have 2: "take i ds \<noteq> []" by auto
  from assms(3) have "hd (take i ds) = hd ds" by simp
  with assms(2) have 3: "length (take i ds) = 1 \<or> hd (take i ds) \<noteq> CHR ''0''" by simp
  have 4: "CHR ''.'' # drop i ds @ rest = [] \<or> \<not> is_digit (hd (CHR ''.'' # drop i ds @ rest))"
    by (simp add: is_digit_def)
  from assms(4) have fne: "drop i ds \<noteq> []" by simp
  from parse_number_general [OF 1 2 3 4
      parse_fraction_some [OF f fne delimited_no_digit [OF assms(5)]]
      parse_exponent_none [OF assms(5)], of neg]
  show ?thesis by simp
qed

lemma parse_leading_zero:
  assumes "list_all is_digit ds" and "ds \<noteq> []" and "delimited rest"
  shows "parse_number ((if neg then ''-'' else []) @ ''0''
                       @ (CHR ''.'' # (replicate j (CHR ''0'') @ ds) @ rest))
         = Some (normal (Fin ((if neg then - 1 else 1) * int (digits_value ds))
                             (- int (j + length ds))), rest)"
proof -
  have f: "list_all is_digit (replicate j (CHR ''0'') @ ds)"
    using assms(1) is_digit_zero by (auto simp: list_all_iff)
  have fne: "replicate j (CHR ''0'') @ ds \<noteq> []" using assms(2) by simp
  have 1: "list_all is_digit ''0''" by (simp add: is_digit_def)
  have 4: "CHR ''.'' # (replicate j (CHR ''0'') @ ds) @ rest = []
           \<or> \<not> is_digit (hd (CHR ''.'' # (replicate j (CHR ''0'') @ ds) @ rest))"
    by (simp add: is_digit_def)
  have v: "digits_value (CHR ''0'' # replicate j (CHR ''0'') @ ds) = digits_value ds"
    using digits_value_leading_zeros [of "Suc j" ds] by simp
  from parse_number_general [OF 1 _ _ 4
      parse_fraction_some [OF f fne delimited_no_digit [OF assms(3)]]
      parse_exponent_none [OF assms(3)], of neg]
  show ?thesis by (simp add: v)
qed

lemma parse_exponent_form:
  assumes "list_all is_digit ds" and "ds \<noteq> []" and "hd ds \<noteq> CHR ''0''" and "delimited rest"
    and "sg = CHR ''-'' \<or> sg = CHR ''+''"
  shows "parse_number ((if neg then ''-'' else []) @ take 1 ds
                       @ ((if length ds = 1 then [] else CHR ''.'' # drop 1 ds)
                          @ CHR ''e'' # sg # decimal x @ rest))
         = Some (normal (Fin ((if neg then - 1 else 1) * int (digits_value ds))
                             ((if sg = CHR ''-'' then - 1 else 1) * int x - int (length ds - 1))),
                 rest)"
proof -
  from assms(1) have 1: "list_all is_digit (take 1 ds)" and f: "list_all is_digit (drop 1 ds)"
    by (auto simp: list_all_iff dest: in_set_takeD in_set_dropD)
  from assms(2) have 2: "take 1 ds \<noteq> []" by simp
  have 3: "length (take 1 ds) = 1 \<or> hd (take 1 ds) \<noteq> CHR ''0''"
    using assms(2) by (cases ds) simp_all
  let ?X = "CHR ''e'' # sg # decimal x @ rest"
  have x: "parse_exponent ?X = Some ((if sg = CHR ''-'' then - 1 else 1) * int x, rest)"
    using assms(4,5) by (rule parse_exponent_some)
  have xd: "?X = [] \<or> \<not> is_digit (hd ?X)" by (simp add: is_digit_def)
  show ?thesis
  proof (cases "length ds = 1")
    case True
    then have d: "drop 1 ds = []" "take 1 ds = ds" by simp_all
    have p: "parse_fraction ?X = Some ([], ?X)"
      by (rule parse_fraction_none) simp
    from parse_number_general [OF 1 2 3 xd p x, of neg] True
    show ?thesis by (simp add: d)
  next
    case False
    with assms(2) have fne: "drop 1 ds \<noteq> []" by (cases ds) auto
    have 4: "CHR ''.'' # drop 1 ds @ ?X = [] \<or> \<not> is_digit (hd (CHR ''.'' # drop 1 ds @ ?X))"
      by (simp add: is_digit_def)
    from parse_number_general [OF 1 2 3 4 parse_fraction_some [OF f fne xd] x, of neg] False
    show ?thesis by simp
  qed
qed

lemma Number_toString_digits:
  assumes "s \<noteq> 0"
    and st: "rev (dropWhile (\<lambda>c. c = CHR ''0'') (rev (decimal (nat \<bar>s\<bar>)))) = ds"
    and k: "k = int (length ds)" and n: "n = e + int (length (decimal (nat \<bar>s\<bar>)))"
  shows "Number_toString (Fin s e) =
           (if s < 0 then ''-'' else []) @
           (if k \<le> n \<and> n \<le> 21 then ds @ replicate (nat (n - k)) (CHR ''0'')
            else if 0 < n \<and> n \<le> 21 then take (nat n) ds @ ''.'' @ drop (nat n) ds
            else if - 6 < n \<and> n \<le> 0 then ''0.'' @ replicate (nat (- n)) (CHR ''0'') @ ds
            else take 1 ds @ (if k = 1 then [] else ''.'' @ drop 1 ds) @ ''e''
                   @ (if n - 1 < 0 then ''-'' else ''+'') @ decimal (nat \<bar>n - 1\<bar>))"
proof -
  have "Number_toString (Fin s e) =
          (let every = decimal (nat \<bar>s\<bar>);
               ds = rev (dropWhile (\<lambda>c. c = CHR ''0'') (rev every));
               k = int (length ds);
               n = e + int (length every);
               body =
                 (if k \<le> n \<and> n \<le> 21 then ds @ replicate (nat (n - k)) (CHR ''0'')
                  else if 0 < n \<and> n \<le> 21 then take (nat n) ds @ ''.'' @ drop (nat n) ds
                  else if - 6 < n \<and> n \<le> 0 then ''0.'' @ replicate (nat (- n)) (CHR ''0'') @ ds
                  else take 1 ds @ (if k = 1 then [] else ''.'' @ drop 1 ds) @ ''e''
                         @ (if n - 1 < 0 then ''-'' else ''+'') @ decimal (nat \<bar>n - 1\<bar>))
           in (if s < 0 then ''-'' else []) @ body)"
    using assms(1) by (simp add: Number_toString_def)
  then show ?thesis
    unfolding Let_def st k [symmetric] n [symmetric] .
qed

lemma parse_number_zero:
  assumes "delimited rest"
  shows "parse_number (''0'' @ rest) = Some (Fin 0 0, rest)"
proof -
  have 1: "list_all is_digit ''0''" by (simp add: is_digit_def)
  from parse_number_general [OF 1 _ _ delimited_no_digit [OF assms]
      parse_fraction_none [OF delimited_no_point [OF assms]]
      parse_exponent_none [OF assms], of False]
  show ?thesis by (simp add: digits_value_def normal_def)
qed

lemma parse_number_toString:
  assumes "delimited rest"
  shows "parse_number (Number_toString (Fin s e) @ rest) = Some (normal (Fin s e), rest)"
proof (cases "s = 0")
  case True
  then show ?thesis
    using parse_number_zero [OF assms] by (simp add: Number_toString_def normal_def)
next
  case False
  define m where "m = nat \<bar>s\<bar>"
  from False have m: "0 < m" by (simp add: m_def)
  from decimal_stripped [OF m] obtain ds z where
    d: "decimal m = ds @ replicate z (CHR ''0'')"
    and st: "rev (dropWhile (\<lambda>c. c = CHR ''0'') (rev (decimal m))) = ds"
    and dig: "list_all is_digit ds" and ne: "ds \<noteq> []" and hd: "hd ds \<noteq> CHR ''0''"
    and last: "last ds \<noteq> CHR ''0''" and v: "m = digits_value ds * 10 ^ z"
    by blast
  define neg where "neg = (s < 0)"
  define \<sigma> :: int where "\<sigma> = (if neg then - 1 else 1)"
  define k where "k = int (length ds)"
  define n where "n = e + int (length (decimal m))"
  have sg: "\<sigma> = 1 \<or> \<sigma> = - 1" by (simp add: \<sigma>_def)
  have s: "s = \<sigma> * int m" by (auto simp: \<sigma>_def neg_def m_def)
  have kpos: "0 < k" using ne by (simp add: k_def)
  have nk: "n - k = e + int z" by (simp add: n_def k_def d)
  have N: "normal (Fin s e) = Fin (\<sigma> * int (digits_value ds)) (e + int z)"
    unfolding s using dig ne hd last v sg by (rule normal_raw)
  have raw: "normal (Fin (\<sigma> * int (digits_value ds)) E) = Fin (\<sigma> * int (digits_value ds)) E" for E
    using normal_raw [OF dig ne hd last _ sg, of "digits_value ds" 0 E] by simp
  note T = Number_toString_digits [OF False st [unfolded m_def] k_def n_def [unfolded m_def],
      folded neg_def m_def]
  consider (A) "k \<le> n" "n \<le> 21"
    | (B) "\<not> (k \<le> n \<and> n \<le> 21)" "0 < n" "n \<le> 21"
    | (C) "\<not> (k \<le> n \<and> n \<le> 21)" "\<not> (0 < n \<and> n \<le> 21)" "- 6 < n" "n \<le> 0"
    | (D) "\<not> (k \<le> n \<and> n \<le> 21)" "\<not> (0 < n \<and> n \<le> 21)" "\<not> (- 6 < n \<and> n \<le> 0)"
    by blast
  then show ?thesis
  proof cases
    case A
    define j where "j = nat (n - k)"
    have t: "Number_toString (Fin s e) @ rest
               = (if neg then ''-'' else []) @ (ds @ replicate j (CHR ''0'')) @ rest"
      unfolding T j_def using A by simp
    have j: "int j = e + int z" using A nk by (simp add: j_def)
    have "normal (Fin (\<sigma> * int (digits_value (ds @ replicate j (CHR ''0'')))) 0)
            = Fin (\<sigma> * int (digits_value ds)) (0 + int j)"
      using dig ne hd last digits_value_trailing_zeros sg by (rule normal_raw)
    with parse_plain_integer [OF dig ne hd assms, of neg j] N j show ?thesis
      unfolding t \<sigma>_def by simp
  next
    case B
    define i where "i = nat n"
    from B have i: "0 < i" "i < length ds" by (auto simp: i_def k_def)
    have t: "Number_toString (Fin s e) @ rest
               = (if neg then ''-'' else []) @ take i ds @ (CHR ''.'' # drop i ds @ rest)"
      unfolding T i_def using B by simp
    have E: "- int (length ds - i) = e + int z"
      using B i nk by (simp add: i_def k_def)
    from parse_point_inside [OF dig hd i assms, of neg] N show ?thesis
      unfolding t E \<sigma>_def [symmetric] raw by simp
  next
    case C
    define j where "j = nat (- n)"
    have t: "Number_toString (Fin s e) @ rest
               = (if neg then ''-'' else []) @ ''0''
                   @ (CHR ''.'' # (replicate j (CHR ''0'') @ ds) @ rest)"
      unfolding T j_def using C by simp
    have E: "- int (j + length ds) = e + int z"
      using C nk by (simp add: j_def k_def)
    from parse_leading_zero [OF dig ne assms, of neg j] N show ?thesis
      unfolding t E \<sigma>_def [symmetric] raw by simp
  next
    case D
    define x where "x = nat \<bar>n - 1\<bar>"
    define c where "c = (if n - 1 < 0 then CHR ''-'' else CHR ''+'')"
    have c: "c = CHR ''-'' \<or> c = CHR ''+''" by (simp add: c_def)
    have k1: "(k = 1) = (length ds = 1)" by (auto simp: k_def)
    have t: "Number_toString (Fin s e) @ rest
               = (if neg then ''-'' else []) @ take 1 ds
                   @ ((if length ds = 1 then [] else CHR ''.'' # drop 1 ds)
                      @ CHR ''e'' # c # decimal x @ rest)"
      unfolding T x_def c_def k1 if_not_P [OF D(1)] if_not_P [OF D(2)] if_not_P [OF D(3)]
      by simp
    have "(if c = CHR ''-'' then - 1 else 1) * int x = n - 1"
      by (simp add: c_def x_def)
    moreover have "int (length ds - 1) = k - 1" using ne by (cases ds) (simp_all add: k_def)
    ultimately have E: "(if c = CHR ''-'' then - 1 else 1) * int x - int (length ds - 1) = e + int z"
      using nk by simp
    from parse_exponent_form [OF dig ne hd assms c, of neg x] N show ?thesis
      unfolding t E \<sigma>_def [symmetric] raw by simp
  qed
qed

lemma stringify_object:
  "JSON_stringify (JObject kvs) = ''{'' @ join '','' (map member_text kvs) @ ''}''"
proof -
  have "(\<lambda>(k, v). quote k @ '':'' @ JSON_stringify v) = member_text"
    by (auto simp: member_text_def fun_eq_iff)
  then show ?thesis by simp
qed

lemma Number_toString_head:
  "\<exists>c cs. Number_toString (Fin s e) = c # cs \<and> (is_digit c \<or> c = CHR ''-'')"
proof (cases "s = 0")
  case True
  then show ?thesis by (simp add: Number_toString_def is_digit_def)
next
  case False
  then have m: "0 < nat \<bar>s\<bar>" by simp
  from decimal_stripped [OF m] obtain ds z where
    st: "rev (dropWhile (\<lambda>c. c = CHR ''0'') (rev (decimal (nat \<bar>s\<bar>)))) = ds"
    and dig: "list_all is_digit ds" and ne: "ds \<noteq> []"
    by blast
  from ne dig obtain d ds' where ds: "ds = d # ds'" and d: "is_digit d"
    by (cases ds) auto
  define k where "k = int (length ds)"
  define n where "n = e + int (length (decimal (nat \<bar>s\<bar>)))"
  note T = Number_toString_digits [OF False st k_def n_def]
  show ?thesis
  proof (cases "s < 0")
    case True
    then show ?thesis unfolding T by simp
  next
    case neg: False
    consider (A) "k \<le> n \<and> n \<le> 21"
      | (B) "\<not> (k \<le> n \<and> n \<le> 21)" "0 < n \<and> n \<le> 21"
      | (C) "\<not> (k \<le> n \<and> n \<le> 21)" "\<not> (0 < n \<and> n \<le> 21)" "- 6 < n \<and> n \<le> 0"
      | (D) "\<not> (k \<le> n \<and> n \<le> 21)" "\<not> (0 < n \<and> n \<le> 21)" "\<not> (- 6 < n \<and> n \<le> 0)"
      by blast
    then show ?thesis
    proof cases
      case A
      then show ?thesis
        unfolding T if_not_P [OF neg] if_P [OF A] using d by (simp add: ds)
    next
      case B
      from B(2) obtain i where i: "nat n = Suc i" by (cases "nat n") auto
      show ?thesis
        unfolding T if_not_P [OF neg] if_not_P [OF B(1)] if_P [OF B(2)] i using d by (simp add: ds)
    next
      case C
      show ?thesis
        unfolding T if_not_P [OF neg] if_not_P [OF C(1)] if_not_P [OF C(2)] if_P [OF C(3)]
        by (simp add: is_digit_def)
    next
      case D
      show ?thesis
        unfolding T if_not_P [OF neg] if_not_P [OF D(1)] if_not_P [OF D(2)] if_not_P [OF D(3)]
        using d by (simp add: ds)
    qed
  qed
qed

lemma reads_back_null: "reads_back JNull"
proof -
  have "parse_value f (''null'' @ rest) = Some (JNull, rest)" if "4 \<le> f" for f rest
  proof -
    from that obtain f' where "f = Suc f'" by (cases f) auto
    then show ?thesis by simp
  qed
  then show ?thesis by (simp add: reads_back_def)
qed

lemma reads_back_string: "reads_back (JString s)"
proof -
  have "parse_value f (quote s @ rest) = Some (JString s, rest)" if "length (quote s) \<le> f"
    for f rest
  proof -
    from that obtain f' where f: "f = Suc f'" by (cases f) (auto simp: quote_def)
    obtain cs where q: "quote s @ rest = CHR 0x22 # cs" by (simp add: quote_def)
    have "parse_string (CHR 0x22 # cs) = Some (s, rest)"
      unfolding q [symmetric] by (rule parse_string_quote)
    then show ?thesis unfolding f q by simp
  qed
  then show ?thesis by (simp add: reads_back_def)
qed

lemma reads_back_number: "reads_back (JNumber x)"
proof (cases x)
  case NaN
  with reads_back_null show ?thesis by (simp add: reads_back_def)
next
  case (Fin s e)
  have "parse_value f (Number_toString (Fin s e) @ rest) = Some (JNumber (normal (Fin s e)), rest)"
    if "length (Number_toString (Fin s e)) \<le> f" "delimited rest" for f rest
  proof -
    from Number_toString_head [of s e] obtain c cs where
      t: "Number_toString (Fin s e) = c # cs" and c: "is_digit c \<or> c = CHR ''-''"
      by blast
    from that(1) obtain f' where f: "f = Suc f'" by (cases f) (auto simp: t)
    from c have n: "c \<noteq> CHR 0x22" "c \<noteq> CHR ''{''" "c \<noteq> CHR ''n''"
      by (auto simp: is_digit_def)
    have "parse_number ((c # cs) @ rest) = Some (normal (Fin s e), rest)"
      unfolding t [symmetric] using that(2) by (rule parse_number_toString)
    then show ?thesis unfolding f t using n by simp
  qed
  with Fin show ?thesis by (simp add: reads_back_def)
qed

lemma quote_length: "2 \<le> length (quote k)"
  by (simp add: quote_def)

lemma parse_members_join:
  assumes "\<And>kv. kv \<in> set kvs \<Longrightarrow> reads_back (snd kv)"
    and "kvs \<noteq> []" and "length (join '','' (map member_text kvs)) < f"
  shows "parse_members f (join '','' (map member_text kvs) @ CHR ''}'' # rest)
         = Some (map (\<lambda>(k, v). (k, canon v)) kvs, rest)"
  using assms
proof (induction kvs arbitrary: f)
  case Nil
  then show ?case by simp
next
  case (Cons kv kvs)
  obtain k v where kv: "kv = (k, v)" by (cases kv)
  from Cons.prems(3) obtain f1 where f: "f = Suc f1" by (cases f) auto
  have rb: "reads_back v" using Cons.prems(1) [of kv] by (simp add: kv)
  show ?case
  proof (cases "kvs = []")
    case True
    have l: "length (JSON_stringify v) \<le> f1"
      using Cons.prems(3) quote_length [of k] by (simp add: True kv f member_text_def)
    have d: "delimited (CHR ''}'' # rest)" by (simp add: delimited_def)
    have p: "parse_value f1 (JSON_stringify v @ CHR ''}'' # rest) = Some (canon v, CHR ''}'' # rest)"
      using rb l d by (simp add: reads_back_def)
    have s: "parse_string (quote k @ CHR '':'' # JSON_stringify v @ CHR ''}'' # rest)
              = Some (k, CHR '':'' # JSON_stringify v @ CHR ''}'' # rest)"
      by (rule parse_string_quote)
    show ?thesis by (simp add: True kv f member_text_def s p)
  next
    case False
    then obtain kv' kvs' where kvs: "kvs = kv' # kvs'" by (cases kvs) auto
    let ?more = "join '','' (map member_text kvs)"
    have j: "join '','' (map member_text (kv # kvs))
               = quote k @ CHR '':'' # JSON_stringify v @ CHR '','' # ?more"
      by (simp add: kvs kv member_text_def)
    have l: "length (JSON_stringify v) \<le> f1" and l': "length ?more < f1"
      using Cons.prems(3) quote_length [of k] unfolding j f by simp_all
    have d: "delimited (CHR '','' # ?more @ CHR ''}'' # rest)" by (simp add: delimited_def)
    have p: "parse_value f1 (JSON_stringify v @ CHR '','' # ?more @ CHR ''}'' # rest)
               = Some (canon v, CHR '','' # ?more @ CHR ''}'' # rest)"
      using rb l d by (simp add: reads_back_def)
    have s: "parse_string (quote k @ CHR '':'' # JSON_stringify v @ CHR '','' # ?more @ CHR ''}'' # rest)
              = Some (k, CHR '':'' # JSON_stringify v @ CHR '','' # ?more @ CHR ''}'' # rest)"
      by (rule parse_string_quote)
    have ih: "parse_members f1 (?more @ CHR ''}'' # rest)
               = Some (map (\<lambda>(k, v). (k, canon v)) kvs, rest)"
      using Cons.prems(1) False l' by (intro Cons.IH) simp_all
    show ?thesis unfolding j f by (simp add: s p ih kv)
  qed
qed

lemma reads_back_object:
  assumes "\<And>kv. kv \<in> set kvs \<Longrightarrow> reads_back (snd kv)"
  shows "reads_back (JObject kvs)"
proof (cases "kvs = []")
  case True
  have "parse_value f (''{}'' @ rest) = Some (JObject [], rest)" if "2 \<le> f" for f rest
  proof -
    from that obtain f' where "f = Suc f'" by (cases f) auto
    then show ?thesis by simp
  qed
  with True show ?thesis by (simp add: reads_back_def)
next
  case False
  let ?m = "join '','' (map member_text kvs)"
  have "parse_value f (JSON_stringify (JObject kvs) @ rest) = Some (canon (JObject kvs), rest)"
    if "length (JSON_stringify (JObject kvs)) \<le> f" for f rest
  proof -
    from that obtain f' where f: "f = Suc f'" and l: "length ?m < f'"
      unfolding stringify_object by (cases f) auto
    from False obtain kv kvs' where kvs: "kvs = kv # kvs'" by (cases kvs) auto
    obtain cs where m: "?m = CHR 0x22 # cs"
      unfolding kvs by (cases kvs') (simp_all add: member_text_def quote_def)
    have "parse_members f' (?m @ CHR ''}'' # rest) = Some (map (\<lambda>(k, v). (k, canon v)) kvs, rest)"
      using assms False l by (rule parse_members_join)
    then have "parse_members f' (CHR 0x22 # cs @ CHR ''}'' # rest)
                = Some (map (\<lambda>(k, v). (k, canon v)) kvs, rest)"
      unfolding m by simp
    then show ?thesis unfolding stringify_object f m by simp
  qed
  then show ?thesis by (simp add: reads_back_def)
qed

lemma reads_back_all: "reads_back v"
proof (induction v)
  case JNull
  show ?case by (rule reads_back_null)
next
  case (JNumber x)
  show ?case by (rule reads_back_number)
next
  case (JString s)
  show ?case by (rule reads_back_string)
next
  case (JObject kvs)
  show ?case
  proof (rule reads_back_object)
    fix kv assume m: "kv \<in> set kvs"
    obtain k v where kv: "kv = (k, v)" by (cases kv)
    have "v \<in> Basic_BNFs.snds kv" by (simp add: kv)
    with m have "reads_back v" by (rule JObject)
    then show "reads_back (snd kv)" by (simp add: kv)
  qed
qed

lemma JSON_parse_stringify: "JSON_parse (JSON_stringify v) = Some (canon v)"
proof -
  have "delimited []" by (simp add: delimited_def)
  with reads_back_all [of v]
  have "parse_value (length (JSON_stringify v)) (JSON_stringify v @ []) = Some (canon v, [])"
    unfolding reads_back_def by blast
  then show ?thesis by (simp add: JSON_parse_def)
qed

lemma canon_token:
  "canon (JObject [(''courseId'', JString i), (''semester'', n), (''dateTime'', JString t),
                   (''location'', l)])
   = JObject [(''courseId'', JString i), (''semester'', canon n), (''dateTime'', JString t),
              (''location'', canon l)]"
  by simp

lemma canon_truthy: "truthy_number x \<Longrightarrow> canon (JNumber x) = JNumber (normal x)"
  by (cases x) (simp_all add: truthy_number_def)

lemmas eval_normal = normal_def digits_value_def decimal_numeral digit_char_simps Let_def

subsection \<open>The token\<close>

text \<open>
  C1. While the course of the page is not Active (or no course is set), the token is the
  empty string and the page displays no code, whatever the rest of the state is.
\<close>

theorem C1_inactive_no_token:
  assumes "\<forall>c. course st = Some c \<longrightarrow> LinkStatus c \<noteq> ''Active''"
  shows "qrValue st semester now = [] \<and> displayed_code (render st semester now) = None"
  using assms
  by (auto simp: qrValue_def render_def displayed_code_def Let_def split: option.splits)

theorem C1_inactive_no_token_witness:
  "course (showing bca_inactive sample1) = Some bca_inactive
   \<and> LinkStatus bca_inactive = ''Inactive''
   \<and> qrValue (showing bca_inactive sample1) ''3'' now0 = []
   \<and> displayed_code (render (showing bca_inactive sample1) ''3'' now0) = None"
proof -
  have h: "\<forall>c. course (showing bca_inactive sample1) = Some c \<longrightarrow> LinkStatus c \<noteq> ''Active''"
    by (simp add: showing_def bca_inactive_def)
  have c: "course (showing bca_inactive sample1) = Some bca_inactive"
    by (simp add: showing_def)
  have l: "LinkStatus bca_inactive = ''Inactive''"
    by (simp add: bca_inactive_def)
  from c l C1_inactive_no_token [OF h, of "''3''" now0] show ?thesis by (intro conjI) simp_all
qed

text \<open>
  C2, as stated, fails: with an Active course and the sample on the equator present, the
  token's location is \<open>null\<close>, not the sample's latitude and longitude.
\<close>

theorem C2_present_sample_null_location:
  \<open>course (showing bca equator) = Some bca \<and> LinkStatus bca = ''Active''
   \<and> location (showing bca equator)
       = \<lparr>latitude = Some (Fin 0 0), longitude = Some (Fin 917362 (- 4))\<rparr>
   \<and> qrValue (showing bca equator) ''3'' now0 =
       ''{"courseId":"c1","semester":3,"dateTime":"2025-01-05T09:03:07.042Z","location":null}''\<close>
  by (simp add: showing_def bca_def equator_def now0_def eval_token)

text \<open>
  C2, amended. For an Active course, a location whose two coordinates are numbers other
  than zero, a semester parameter that \<open>parseInt\<close> reads as an integer (one a double holds
  exactly) and a date of the years 0 to 9999, the token is a JSON text that decodes to the
  object with exactly the fields \<open>courseId\<close>, \<open>semester\<close>, \<open>dateTime\<close> and \<open>location\<close>, in
  this order: the course identifier, that integer, the instant in the ISO-8601 shape, and
  the latitude and longitude of the location.
\<close>

theorem C2_active_token_fields:
  assumes "course st = Some c" and "LinkStatus c = ''Active''"
    and "latitude (location st) = Some la" and "longitude (location st) = Some lo"
    and "truthy_number la" and "truthy_number lo"
    and "parseInt semester = Fin n 0" and "\<bar>n\<bar> \<le> 2 ^ 53"
    and "valid_date now"
  shows "JSON_parse (qrValue st semester now) =
           Some (JObject
             [(''courseId'', JString (course_id c)),
              (''semester'', JNumber (normal (Fin n 0))),
              (''dateTime'', JString (toISOString now)),
              (''location'', JObject [(''latitude'', JNumber (normal la)),
                                      (''longitude'', JNumber (normal lo))])])
         \<and> qrValue st semester now =
             JSON_stringify (JObject
               [(''courseId'', JString (course_id c)),
                (''semester'', JNumber (Fin n 0)),
                (''dateTime'', JString (toISOString now)),
                (''location'', JObject [(''latitude'', JNumber la), (''longitude'', JNumber lo)])])
         \<and> is_iso8601 (toISOString now)"
proof -
  let ?obj = "JObject
               [(''courseId'', JString (course_id c)),
                (''semester'', JNumber (Fin n 0)),
                (''dateTime'', JString (toISOString now)),
                (''location'', JObject [(''latitude'', JNumber la), (''longitude'', JNumber lo)])]"
  have "truthy (latitude (location st)) \<and> truthy (longitude (location st))"
    using assms(3-6) by (simp add: truthy_def)
  then have "qrObject c (location st) semester now = ?obj"
    using assms(3,4,7) by (simp add: qrObject_def json_of_def)
  with active_qrValue [OF assms(1,2)]
  have q: "qrValue st semester now = JSON_stringify ?obj" by simp
  have "canon ?obj = JObject
             [(''courseId'', JString (course_id c)),
              (''semester'', JNumber (normal (Fin n 0))),
              (''dateTime'', JString (toISOString now)),
              (''location'', JObject [(''latitude'', JNumber (normal la)),
                                      (''longitude'', JNumber (normal lo))])]"
    using canon_truthy [OF assms(5)] canon_truthy [OF assms(6)] by simp
  then have p: "JSON_parse (qrValue st semester now) =
           Some (JObject
             [(''courseId'', JString (course_id c)),
              (''semester'', JNumber (normal (Fin n 0))),
              (''dateTime'', JString (toISOString now)),
              (''location'', JObject [(''latitude'', JNumber (normal la)),
                                      (''longitude'', JNumber (normal lo))])])"
    unfolding q JSON_parse_stringify by (simp only:)
  from p q toISOString_iso8601 [OF assms(9)] show ?thesis by (intro conjI)
qed

theorem C2_active_token_fields_witness:
  \<open>qrValue (showing bca sample1) ''3'' now0 =
     ''{"courseId":"c1","semester":3,"dateTime":"2025-01-05T09:03:07.042Z","location":{"latitude":26.1445,"longitude":91.7362}}''
   \<and> JSON_parse ''{"courseId":"c1","semester":3,"dateTime":"2025-01-05T09:03:07.042Z","location":{"latitude":26.1445,"longitude":91.7362}}''
     = Some (JObject
         [(''courseId'', JString ''c1''),
          (''semester'', JNumber (Fin 3 0)),
          (''dateTime'', JString ''2025-01-05T09:03:07.042Z''),
          (''location'', JObject [(''latitude'', JNumber (Fin 261445 (- 4))),
                                  (''longitude'', JNumber (Fin 917362 (- 4)))])])
   \<and> is_iso8601 ''2025-01-05T09:03:07.042Z''\<close>
proof -
  have h1: "course (showing bca sample1) = Some bca" by (simp add: showing_def)
  have h2: "LinkStatus bca = ''Active''" by (simp add: bca_def)
  have h3: "latitude (location (showing bca sample1)) = Some (Fin 261445 (- 4))"
    by (simp add: showing_def sample1_def)
  have h4: "longitude (location (showing bca sample1)) = Some (Fin 917362 (- 4))"
    by (simp add: showing_def sample1_def)
  have h5: "truthy_number (Fin 261445 (- 4))" by (simp add: truthy_number_def)
  have h6: "truthy_number (Fin 917362 (- 4))" by (simp add: truthy_number_def)
  have h7: "parseInt ''3'' = Fin 3 0"
    by (simp add: parseInt_def is_white_def is_digit_def digits_value_def)
  have h8: "\<bar>3::int\<bar> \<le> 2 ^ 53" by simp
  have h9: "valid_date now0" by (simp add: valid_date_def now0_def)
  have t: "toISOString now0 = ''2025-01-05T09:03:07.042Z''"
    by (simp add: toISOString_def now0_def pad_def eval_number)
  have n: "normal (Fin 3 0) = Fin 3 0" "normal (Fin 261445 (- 4)) = Fin 261445 (- 4)"
    "normal (Fin 917362 (- 4)) = Fin 917362 (- 4)"
    by (simp_all add: eval_normal)
  have i: "course_id bca = ''c1''" by (simp add: bca_def)
  note w = C2_active_token_fields [OF h1 h2 h3 h4 h5 h6 h7 h8 h9, unfolded t n i]
  have q: \<open>qrValue (showing bca sample1) ''3'' now0 =
       ''{"courseId":"c1","semester":3,"dateTime":"2025-01-05T09:03:07.042Z","location":{"latitude":26.1445,"longitude":91.7362}}''\<close>
    unfolding w [THEN conjunct2, THEN conjunct1]
    by (simp add: eval_number quote_def escape_char_def)
  from w [THEN conjunct1] w [THEN conjunct2, THEN conjunct2] show ?thesis
    unfolding q by (intro conjI refl)
qed

subsection \<open>Live location updates\<close>

lemma traffic_step:
  assumes "location_traffic ev"
  shows "subscribed (step cfg programme ev s) = subscribed s
         \<and> course (ui (step cfg programme ev s)) = course (ui s)"
  using assms by (cases ev) (auto simp: location_traffic_def setLocation_def split: option.splits)

lemma traffic_run:
  assumes "\<forall>ev \<in> set evs. location_traffic ev"
  shows "subscribed (run cfg programme evs s) = subscribed s
         \<and> course (ui (run cfg programme evs s)) = course (ui s)"
  using assms
proof (induction evs arbitrary: s)
  case Nil
  then show ?case by (simp add: run_def)
next
  case (Cons ev evs)
  then have "location_traffic ev" and rest: "\<forall>e \<in> set evs. location_traffic e" by auto
  from traffic_step [OF this(1), of cfg programme s] Cons.IH [OF rest, of "step cfg programme ev s"]
  show ?case by (simp add: run_def)
qed

text \<open>
  C3, as stated, fails: after the sample on the equator is published and re-queried, it
  is the most recently created sample and the state of the page holds it, but the token
  of the Active course embeds \<open>null\<close> for its location.
\<close>

theorem C3_newest_sample_not_embedded:
  \<open>fetchLatestLocation [sample1, equator] = Some equator
   \<and> LocationSub \<in> set (subscribed loaded)
   \<and> course (ui after_equator) = Some bca \<and> LinkStatus bca = ''Active''
   \<and> location (ui after_equator)
       = \<lparr>latitude = Latitude equator, longitude = Longitude equator\<rparr>
   \<and> qrValue (ui after_equator) ''3'' now0 =
       ''{"courseId":"c1","semester":3,"dateTime":"2025-01-05T09:03:07.042Z","location":null}''\<close>
proof -
  have u: "ui after_equator = showing bca equator" by code_simp
  have f: "fetchLatestLocation [sample1, equator] = Some equator" by code_simp
  have l: "LocationSub \<in> set (subscribed loaded)" by (simp add: loaded_eval)
  have q: \<open>qrValue (showing bca equator) ''3'' now0 =
       ''{"courseId":"c1","semester":3,"dateTime":"2025-01-05T09:03:07.042Z","location":null}''\<close>
    by (simp add: showing_def bca_def equator_def now0_def eval_token)
  show ?thesis unfolding u using f l q by (simp add: showing_def bca_def)
qed

text \<open>
  A second way in which the newest sample is missed: when the answer to a later re-query
  overtakes the answer to an earlier one, the earlier, staler answer is applied last.
\<close>

lemma stale_requery_applied_last:
  "fetchLatestLocation [sample1, sample2, sample3] = Some sample3
   \<and> location (ui overtaken) = \<lparr>latitude = Latitude sample2, longitude = Longitude sample2\<rparr>"
  by code_simp

text \<open>
  C3, amended. While the location subscription is registered, a creation message starts a
  re-query whatever its payload is, and a re-query answered from a non-empty log sets the
  location of the page to the sample of greatest creation time in that log. So after any
  burst of creation messages and settled re-queries, the location is the newest sample of
  the log read by the re-query that settled last, and the token of an Active course is
  built from that location (C2 and C9 say what it embeds).
\<close>

theorem C3_last_requery_wins:
  assumes "LocationSub \<in> set (subscribed s)"
    and "\<forall>ev \<in> set evs. location_traffic ev"
    and "location_create_event cfg \<in> set names"
    and "collection \<noteq> []"
  shows "\<exists>d \<in> set collection.
           (\<forall>d' \<in> set collection. createdAt d' \<le> createdAt d)
           \<and> (let s' = run cfg programme
                          (evs @ [LocationMessage names payload, RequeryResolved collection]) s
              in location (ui s') = \<lparr>latitude = Latitude d, longitude = Longitude d\<rparr>
                 \<and> (\<forall>c. course (ui s) = Some c \<and> LinkStatus c = ''Active'' \<longrightarrow>
                       qrValue (ui s') semester now =
                         JSON_stringify
                           (qrObject c \<lparr>latitude = Latitude d, longitude = Longitude d\<rparr>
                              semester now)))"
proof -
  from assms(4) obtain d where d: "fetchLatestLocation collection = Some d"
    by (auto simp: fetchLatestLocation_last)
  define s1 where "s1 = run cfg programme evs s"
  have s1: "LocationSub \<in> set (subscribed s1)" "course (ui s1) = course (ui s)"
    using traffic_run [OF assms(2), of cfg programme s] assms(1) by (simp_all add: s1_def)
  define s' where
    "s' = run cfg programme [LocationMessage names payload, RequeryResolved collection] s1"
  have loc: "location (ui s') = \<lparr>latitude = Latitude d, longitude = Longitude d\<rparr>"
    and crs: "course (ui s') = course (ui s)"
    using s1 assms(3) d by (simp_all add: s'_def run_def setLocation_def)
  have "qrValue (ui s') semester now =
          JSON_stringify
            (qrObject c \<lparr>latitude = Latitude d, longitude = Longitude d\<rparr> semester now)"
    if "course (ui s) = Some c" "LinkStatus c = ''Active''" for c
    using that loc crs by (simp add: qrValue_def)
  moreover have
    "run cfg programme (evs @ [LocationMessage names payload, RequeryResolved collection]) s = s'"
    by (simp add: run_append s'_def s1_def)
  ultimately show ?thesis
    using fetchLatestLocation_greatest [OF d] loc by (intro bexI [of _ d]) (auto simp: Let_def)
qed

theorem C3_last_requery_wins_witness:
  "location (ui (run cfg0 ''bca''
      ([LocationMessage [location_create_event cfg0] sample2]
       @ [LocationMessage [location_create_event cfg0] sample1, RequeryResolved [sample1, sample2]])
      loaded))
   = \<lparr>latitude = Latitude sample2, longitude = Longitude sample2\<rparr>"
proof -
  have h1: "LocationSub \<in> set (subscribed loaded)" by (simp add: loaded_eval)
  have h2: "\<forall>ev \<in> set [LocationMessage [location_create_event cfg0] sample2]. location_traffic ev"
    by (simp add: location_traffic_def)
  have h3: "location_create_event cfg0 \<in> set [location_create_event cfg0]" by simp
  have h4: "[sample1, sample2] \<noteq> []" by simp
  from C3_last_requery_wins [OF h1 h2 h3 h4, of "''bca''" sample1 "''3''" now0]
  obtain d where d: "d \<in> set [sample1, sample2]" "\<forall>d' \<in> set [sample1, sample2]. createdAt d' \<le> createdAt d"
    and l: "location (ui (run cfg0 ''bca''
      ([LocationMessage [location_create_event cfg0] sample2]
       @ [LocationMessage [location_create_event cfg0] sample1, RequeryResolved [sample1, sample2]])
      loaded)) = \<lparr>latitude = Latitude d, longitude = Longitude d\<rparr>"
    unfolding Let_def by blast
  from d have "d = sample2" by (auto simp: sample1_def sample2_def)
  with l show ?thesis by simp
qed

subsection \<open>Teardown\<close>

text \<open>
  C4 fails on the code when the page is torn down while the course fetch is in flight:
  the cleanup finds both closure variables still unset and releases nothing but the
  timer; \<open>initializeData\<close> then resumes and registers both subscriptions, which stay
  registered. A later course update reaches the course callback, which sets the course,
  and a later creation message starts a re-query.
\<close>

theorem C4_teardown_during_load_leaks:
  "timeInterval torn_down_early = False
   \<and> subscribed torn_down_early = [LocationSub, CourseSub ''c1'']
   \<and> course (ui torn_down_early) = Some bca
   \<and> course (ui (step cfg0 ''bca''
        (CourseMessage ''c1'' [course_update_event cfg0 ''c1''] bca_inactive) torn_down_early))
       = Some bca_inactive
   \<and> requeries (step cfg0 ''bca''
        (LocationMessage [location_create_event cfg0] sample2) torn_down_early) = 1"
  by code_simp

text \<open>
  Where the claim does hold: a page torn down for the first time after its load has
  settled, with no re-query in flight, keeps no subscription and no timer, and no later
  event changes it.
\<close>

lemma tracked_mount: "tracked (mount t)"
  by (simp add: tracked_def mount_def)

lemma tracked_step:
  assumes "tracked s" and "ev \<noteq> Cleanup"
  shows "tracked (step cfg programme ev s)"
  using assms
  by (cases ev; cases "phase s")
    (auto simp: tracked_def catch_and_finally_def setLocation_def Let_def split: option.splits)

lemma tracked_run:
  assumes "tracked s" and "Cleanup \<notin> set evs"
  shows "tracked (run cfg programme evs s)"
  using assms
proof (induction evs arbitrary: s)
  case Nil
  then show ?case by (simp add: run_def)
next
  case (Cons ev evs)
  then have "tracked (step cfg programme ev s)" by (intro tracked_step) auto
  with Cons show ?case by (simp add: run_def)
qed

lemma cleanup_releases_tracked:
  assumes "tracked s"
  shows "subscribed (step cfg programme Cleanup s) = []
         \<and> \<not> timeInterval (step cfg programme Cleanup s)"
  using assms by (auto simp: tracked_def Let_def split: option.splits)

lemma quiet_step:
  assumes "subscribed s = []" and "\<not> timeInterval s" and "phase s = Settled" and "requeries s = 0"
  shows "step cfg programme ev s = s"
  using assms by (cases ev) (auto simp: Let_def split: option.splits)

lemma quiet_run:
  assumes "subscribed s = []" and "\<not> timeInterval s" and "phase s = Settled" and "requeries s = 0"
  shows "run cfg programme evs s = s"
  using assms by (induction evs) (simp_all add: run_def quiet_step)

lemma teardown_after_settled_load_is_final:
  assumes "Cleanup \<notin> set evs"
    and "phase (run cfg programme evs (mount t)) = Settled"
    and "requeries (run cfg programme evs (mount t)) = 0"
  shows "subscribed (run cfg programme (evs @ [Cleanup]) (mount t)) = []
         \<and> \<not> timeInterval (run cfg programme (evs @ [Cleanup]) (mount t))
         \<and> run cfg programme (evs @ [Cleanup] @ later) (mount t)
             = run cfg programme (evs @ [Cleanup]) (mount t)"
proof -
  define s where "s = run cfg programme evs (mount t)"
  define s' where "s' = step cfg programme Cleanup s"
  have "tracked s" unfolding s_def using tracked_mount assms(1) by (rule tracked_run)
  then have r: "subscribed s' = []" "\<not> timeInterval s'"
    unfolding s'_def using cleanup_releases_tracked by blast+
  have p: "phase s' = Settled" "requeries s' = 0"
    using assms(2,3) by (simp_all add: s'_def s_def Let_def)
  have e: "run cfg programme (evs @ [Cleanup]) (mount t) = s'"
    by (simp add: run_def s'_def s_def)
  have "run cfg programme (evs @ [Cleanup] @ later) (mount t) = run cfg programme later s'"
    by (simp add: run_def s'_def s_def)
  also have "\<dots> = s'" using r p by (rule quiet_run)
  finally show ?thesis using r e by simp
qed

subsection \<open>The latest location\<close>

text \<open>
  C5. \<open>fetchLatestLocation\<close> returns none exactly when the collection holds no sample, and
  otherwise a sample of the collection whose creation time no other sample exceeds.
\<close>

theorem C5_latest_location_is_newest:
  "(fetchLatestLocation collection = None \<longleftrightarrow> collection = [])
   \<and> (\<forall>d. fetchLatestLocation collection = Some d \<longrightarrow>
         d \<in> set collection \<and> (\<forall>d' \<in> set collection. createdAt d' \<le> createdAt d))"
  using fetchLatestLocation_greatest [of collection]
  by (auto simp: fetchLatestLocation_last)

theorem C5_latest_location_is_newest_witness:
  "fetchLatestLocation [sample2, sample3, sample1] = Some sample3
   \<and> sample3 \<in> set [sample2, sample3, sample1]
   \<and> createdAt sample2 \<le> createdAt sample3 \<and> createdAt sample1 \<le> createdAt sample3
   \<and> fetchLatestLocation [] = None"
proof -
  have f: "fetchLatestLocation [sample2, sample3, sample1] = Some sample3" by code_simp
  from C5_latest_location_is_newest [of "[sample2, sample3, sample1]"] f
  have "sample3 \<in> set [sample2, sample3, sample1]
        \<and> (\<forall>d' \<in> set [sample2, sample3, sample1]. createdAt d' \<le> createdAt sample3)"
    by blast
  moreover from C5_latest_location_is_newest [of "[]"] have "fetchLatestLocation [] = None"
    by blast
  ultimately show ?thesis using f by simp
qed

subsection \<open>Errors of the initial load\<close>

lemma unmatched_inv_mount: "unmatched_inv (mount t)"
  by (simp add: unmatched_inv_def mount_def)

lemma notin_remove1: "x \<notin> set xs \<Longrightarrow> x \<notin> set (remove1 y xs)"
  by (metis notin_set_remove1)

lemma unmatched_inv_step:
  assumes "unmatched_inv s" and "\<forall>cs. ev = CoursesResolved cs \<longrightarrow> no_match programme cs"
  shows "unmatched_inv (step cfg programme ev s)"
proof (cases ev)
  case (CoursesResolved cs)
  with assms show ?thesis
    by (cases "phase s")
      (auto simp: unmatched_inv_def no_match_def catch_and_finally_def Let_def
        split: option.splits)
next
  case (LatestLocationResolved docs)
  with assms show ?thesis
    by (cases "phase s")
      (auto simp: unmatched_inv_def setLocation_def Let_def split: option.splits)
next
  case Cleanup
  with assms show ?thesis
    by (cases "phase s") (auto simp: unmatched_inv_def Let_def notin_remove1 split: option.splits)
qed (use assms in \<open>cases "phase s"; auto simp: unmatched_inv_def catch_and_finally_def
        setLocation_def split: option.splits\<close>)+

lemma unmatched_inv_run:
  assumes "unmatched_inv s" and "\<forall>cs. CoursesResolved cs \<in> set evs \<longrightarrow> no_match programme cs"
  shows "unmatched_inv (run cfg programme evs s)"
  using assms
proof (induction evs arbitrary: s)
  case Nil
  then show ?case by (simp add: run_def)
next
  case (Cons ev evs)
  from Cons.prems have "unmatched_inv (step cfg programme ev s)"
    by (intro unmatched_inv_step) auto
  with Cons show ?case by (simp add: run_def)
qed

lemma messages_truthy:
  "truthy_string (Some not_found_message)" "truthy_string (Some load_failed_message)"
  by (simp_all add: truthy_string_def not_found_message_def load_failed_message_def)

lemma messages_differ: "load_failed_message \<noteq> not_found_message"
  by (simp add: not_found_message_def load_failed_message_def)

lemma unmatched_inv_render:
  assumes "unmatched_inv s"
  shows "render (ui s) semester now =
           (if phase s = Settled then ErrorView (the (error (ui s))) else LoadingView)"
  using assms messages_truthy
  by (cases "phase s") (auto simp: unmatched_inv_def render_def)

lemma settled_step: "phase s = Settled \<Longrightarrow> phase (step cfg programme ev s) = Settled"
  by (cases ev) (auto simp: Let_def split: option.splits)

lemma settled_run: "phase s = Settled \<Longrightarrow> phase (run cfg programme evs s) = Settled"
  by (induction evs arbitrary: s) (simp_all add: run_def settled_step)

text \<open>
  C6. When every answer to the course fetch holds no course that the route parameter
  names, then in every state the session can reach the page displays no code; it shows
  the spinner until the load has settled and the error card from then on, for good. Once
  both fetches are answered the load has settled, with the not-found message (or, when
  the parameter does not even decode, the load-failure message).
\<close>

theorem C6_unknown_programme_error:
  assumes "\<forall>cs. CoursesResolved cs \<in> set evs \<longrightarrow> no_match programme cs"
  shows "let s = run cfg programme evs (mount t); v = render (ui s) semester now
         in displayed_code v = None
            \<and> (if phase s = Settled
               then v = ErrorView not_found_message \<or> v = ErrorView load_failed_message
               else v = LoadingView)
            \<and> (phase s = Settled \<longrightarrow> (\<forall>more. phase (run cfg programme more s) = Settled))
            \<and> (evs = [CoursesResolved courses, LatestLocationResolved docs]
                 \<longrightarrow> v = ErrorView (if decodeURIComponent programme = None
                                      then load_failed_message else not_found_message))"
proof -
  define s where "s = run cfg programme evs (mount t)"
  have inv: "unmatched_inv s"
    unfolding s_def using assms by (intro unmatched_inv_run unmatched_inv_mount)
  have v: "render (ui s) semester now =
             (if phase s = Settled then ErrorView (the (error (ui s))) else LoadingView)"
    using inv by (rule unmatched_inv_render)
  have c: "displayed_code (render (ui s) semester now) = None"
    by (simp add: v displayed_code_def)
  have e: "phase s = Settled \<Longrightarrow>
             error (ui s) = Some not_found_message \<or> error (ui s) = Some load_failed_message"
    using inv by (simp add: unmatched_inv_def)
  have r: "evs = [CoursesResolved courses, LatestLocationResolved docs] \<Longrightarrow>
             phase s = Settled \<and> error (ui s) = Some (if decodeURIComponent programme = None
                                      then load_failed_message else not_found_message)"
    using assms
    by (auto simp: s_def run_def mount_def no_match_def Let_def setLocation_def
        catch_and_finally_def split: option.splits)
  show ?thesis
    unfolding Let_def s_def [symmetric]
    using c e r by (auto simp: v settled_run)
qed

theorem C6_unknown_programme_error_witness:
  "render (ui (run cfg0 ''mca'' [CoursesResolved [bca], LatestLocationResolved [sample1]]
                 (mount ''09:03 am''))) ''3'' now0
     = ErrorView not_found_message
   \<and> displayed_code
       (render (ui (run cfg0 ''mca'' [CoursesResolved [bca], LatestLocationResolved [sample1]]
                      (mount ''09:03 am''))) ''3'' now0) = None"
proof -
  have n: "no_match ''mca'' [bca]" by code_simp
  have d: "decodeURIComponent ''mca'' \<noteq> None" by simp
  have h: "\<forall>cs. CoursesResolved cs \<in> set [CoursesResolved [bca], LatestLocationResolved [sample1]]
             \<longrightarrow> no_match ''mca'' cs"
    using n by simp
  note w = C6_unknown_programme_error
    [OF h, of cfg0 "''09:03 am''" "''3''" now0 "[bca]" "[sample1]", unfolded Let_def]
  have 1: "displayed_code
       (render (ui (run cfg0 ''mca'' [CoursesResolved [bca], LatestLocationResolved [sample1]]
                      (mount ''09:03 am''))) ''3'' now0) = None"
    using w by (rule conjunct1)
  have 2: "render (ui (run cfg0 ''mca'' [CoursesResolved [bca], LatestLocationResolved [sample1]]
                 (mount ''09:03 am''))) ''3'' now0
     = ErrorView not_found_message"
    using w [THEN conjunct2, THEN conjunct2, THEN conjunct2, THEN mp, OF refl] d by simp
  from 2 1 show ?thesis by (rule conjI)
qed

text \<open>
  C7, as stated, fails: the error card shows the message, and the message of a failed
  fetch is not the message of a course that was not found.
\<close>

theorem C7_causes_are_told_apart:
  "render (ui (run cfg0 ''mca'' [CoursesRejected] (mount ''09:03 am''))) ''3'' now0
     = ErrorView ''Failed to load course data. Please try again later.''
   \<and> render (ui (run cfg0 ''mca'' [CoursesResolved [bca], LatestLocationResolved [sample1]]
                    (mount ''09:03 am''))) ''3'' now0
     = ErrorView ''The requested course could not be found.''
   \<and> render (ui (run cfg0 ''mca'' [CoursesRejected] (mount ''09:03 am''))) ''3'' now0
     \<noteq> render (ui (run cfg0 ''mca'' [CoursesResolved [bca], LatestLocationResolved [sample1]]
                    (mount ''09:03 am''))) ''3'' now0"
  by code_simp

text \<open>
  C7, amended. A fetch that fails during the initial load ends in the same error card as
  a course that is not found, an \<open>ErrorView\<close> with no code, but with its own message: the
  load-failure message when either fetch is rejected, the not-found message when the
  course list is answered without the course and the location fetch is answered too.
\<close>

theorem C7_same_card_own_message:
  "render (ui (run cfg programme [CoursesRejected] (mount t))) semester now
     = ErrorView load_failed_message
   \<and> render (ui (run cfg programme [CoursesResolved courses, LatestLocationRejected] (mount t)))
       semester now
     = ErrorView load_failed_message
   \<and> (no_match programme courses \<and> decodeURIComponent programme \<noteq> None \<longrightarrow>
        render (ui (run cfg programme [CoursesResolved courses, LatestLocationResolved docs]
                      (mount t))) semester now
          = ErrorView not_found_message)
   \<and> load_failed_message \<noteq> not_found_message
   \<and> displayed_code (ErrorView load_failed_message) = None
   \<and> displayed_code (ErrorView not_found_message) = None"
proof -
  have 1: "render (ui (run cfg programme [CoursesRejected] (mount t))) semester now
     = ErrorView load_failed_message"
    using messages_truthy
    by (simp add: run_def mount_def catch_and_finally_def render_def)
  have 2: "render (ui (run cfg programme [CoursesResolved courses, LatestLocationRejected] (mount t)))
       semester now = ErrorView load_failed_message"
    using messages_truthy
    by (auto simp: run_def mount_def catch_and_finally_def render_def Let_def split: option.splits)
  have 3: "render (ui (run cfg programme [CoursesResolved courses, LatestLocationResolved docs]
                      (mount t))) semester now = ErrorView not_found_message"
    if "no_match programme courses" "decodeURIComponent programme \<noteq> None"
    using that messages_truthy
    by (auto simp: run_def mount_def render_def no_match_def setLocation_def Let_def
        split: option.splits)
  from 1 2 3 messages_differ show ?thesis by (simp add: displayed_code_def)
qed

theorem C7_same_card_own_message_witness:
  "render (ui (run cfg0 ''mca'' [CoursesResolved [bca], LatestLocationResolved [sample1]]
                 (mount ''09:03 am''))) ''3'' now0
     = ErrorView not_found_message
   \<and> render (ui (run cfg0 ''mca'' [CoursesRejected] (mount ''09:03 am''))) ''3'' now0
     = ErrorView load_failed_message"
proof -
  have n: "no_match ''mca'' [bca]" by code_simp
  have d: "decodeURIComponent ''mca'' \<noteq> None" by simp
  from C7_same_card_own_message [of cfg0 "''mca''" "''09:03 am''" "''3''" now0 "[bca]" "[sample1]"] n d
  show ?thesis by blast
qed

subsection \<open>The location list of the settings page\<close>

text \<open>
  C8, as stated, fails: submitting the form while \<open>sample1\<close> is under edit puts the
  returned document in the place of \<open>sample1\<close>, and a confirmed delete removes it.
\<close>

theorem C8_edit_overwrites_delete_removes:
  "editingLocationId (handleEdit sample1 manager0) = Some ''l1''
   \<and> locations (handleSubmit (Fulfilled sample1_moved) (handleEdit sample1 manager0))
       = [sample2, sample1_moved]
   \<and> sample1 \<notin> set (locations (handleSubmit (Fulfilled sample1_moved)
                                  (handleEdit sample1 manager0)))
   \<and> locations (handleDelete True (Fulfilled ()) ''l1'' manager0) = [sample2]"
  by (simp add: handleEdit_def handleSubmit_def handleDelete_def manager0_def sample1_def
      sample2_def sample1_moved_def truthy_string_def)

text \<open>
  C8, amended. Submitting the form with no location under edit puts the new sample in
  front of the list and keeps every sample the list had, unchanged and in order; a
  rejected call changes nothing. With a location under edit the submit replaces the
  samples of that identifier and no other, and a confirmed, successful delete removes
  the samples of the given identifier and no other.
\<close>

theorem C8_add_keeps_existing_samples:
  "(\<not> truthy_string (editingLocationId m) \<longrightarrow>
      locations (handleSubmit (Fulfilled doc) m) = doc # locations m)
   \<and> locations (handleSubmit (Rejected msg) m) = locations m
   \<and> (truthy_string (editingLocationId m) \<longrightarrow>
        locations (handleSubmit (Fulfilled doc) m) =
          map (\<lambda>loc. if Some (location_id loc) = editingLocationId m then doc else loc)
            (locations m))
   \<and> locations (handleDelete True (Fulfilled ()) locationId m) =
        filter (\<lambda>loc. location_id loc \<noteq> locationId) (locations m)
   \<and> locations (handleDelete False response locationId m) = locations m
   \<and> locations (handleDelete True (Rejected msg) locationId m) = locations m"
  by (simp add: handleSubmit_def handleDelete_def)

theorem C8_add_keeps_existing_samples_witness:
  "locations (handleSubmit (Fulfilled sample3) manager0) = [sample3, sample2, sample1]"
proof -
  have h: "\<not> truthy_string (editingLocationId manager0)"
    by (simp add: manager0_def truthy_string_def)
  from C8_add_keeps_existing_samples [of manager0 sample3, THEN conjunct1, THEN mp, OF h]
  show ?thesis by (simp add: manager0_def)
qed

subsection \<open>Falsy coordinates and unparsable semesters\<close>

text \<open>
  C9. For an Active course and a location of which one coordinate is absent or zero, the
  object handed to \<open>JSON.stringify\<close> has \<open>null\<close> for its location; the token is the
  non-empty text that ends in \<open>"location":null}\<close>, and it decodes to an object whose
  location is \<open>null\<close>.
\<close>

theorem C9_zero_coordinate_null_location:
  assumes "course st = Some c" and "LinkStatus c = ''Active''"
    and "absent_or_zero (latitude (location st)) \<or> absent_or_zero (longitude (location st))"
  shows "qrObject c (location st) semester now =
           JObject [(''courseId'', JString (course_id c)),
                    (''semester'', JNumber (parseInt semester)),
                    (''dateTime'', JString (toISOString now)),
                    (''location'', JNull)]
         \<and> qrValue st semester now =
             ''{'' @ quote ''courseId'' @ '':'' @ quote (course_id c)
             @ '','' @ quote ''semester'' @ '':'' @ JSON_stringify (JNumber (parseInt semester))
             @ '','' @ quote ''dateTime'' @ '':'' @ quote (toISOString now)
             @ '','' @ quote ''location'' @ '':null}''
         \<and> qrValue st semester now \<noteq> []
         \<and> JSON_parse (qrValue st semester now) =
             Some (JObject [(''courseId'', JString (course_id c)),
                            (''semester'', canon (JNumber (parseInt semester))),
                            (''dateTime'', JString (toISOString now)),
                            (''location'', JNull)])"
proof -
  from assms(3) have f: "\<not> (truthy (latitude (location st)) \<and> truthy (longitude (location st)))"
    using absent_or_zero_falsy by blast
  then have o: "qrObject c (location st) semester now =
           JObject [(''courseId'', JString (course_id c)),
                    (''semester'', JNumber (parseInt semester)),
                    (''dateTime'', JString (toISOString now)),
                    (''location'', JNull)]"
    by (simp add: qrObject_def)
  have v: "qrValue st semester now =
             ''{'' @ quote ''courseId'' @ '':'' @ quote (course_id c)
             @ '','' @ quote ''semester'' @ '':'' @ JSON_stringify (JNumber (parseInt semester))
             @ '','' @ quote ''dateTime'' @ '':'' @ quote (toISOString now)
             @ '','' @ quote ''location'' @ '':null}''"
    unfolding active_qrValue [OF assms(1,2)] o stringify_token
    by (simp only: JSON_stringify.simps append_assoc append_Cons append_Nil)
  have n: "qrValue st semester now \<noteq> []" unfolding v by simp
  have p: "JSON_parse (qrValue st semester now) =
             Some (JObject [(''courseId'', JString (course_id c)),
                            (''semester'', canon (JNumber (parseInt semester))),
                            (''dateTime'', JString (toISOString now)),
                            (''location'', JNull)])"
    unfolding active_qrValue [OF assms(1,2)] o JSON_parse_stringify canon_token
    by (simp only: canon.simps)
  from o v n p show ?thesis by (intro conjI)
qed

theorem C9_zero_coordinate_null_location_witness:
  \<open>qrValue (showing bca equator) ''3'' now0 =
     ''{"courseId":"c1","semester":3,"dateTime":"2025-01-05T09:03:07.042Z","location":null}''
   \<and> JSON_parse ''{"courseId":"c1","semester":3,"dateTime":"2025-01-05T09:03:07.042Z","location":null}''
     = Some (JObject [(''courseId'', JString ''c1''), (''semester'', JNumber (Fin 3 0)),
                      (''dateTime'', JString ''2025-01-05T09:03:07.042Z''),
                      (''location'', JNull)])\<close>
proof -
  have h1: "course (showing bca equator) = Some bca" by (simp add: showing_def)
  have h2: "LinkStatus bca = ''Active''" by (simp add: bca_def)
  have h3: "absent_or_zero (latitude (location (showing bca equator)))
       \<or> absent_or_zero (longitude (location (showing bca equator)))"
    by (simp add: showing_def equator_def absent_or_zero_def)
  have s: "parseInt ''3'' = Fin 3 0"
    by (simp add: parseInt_def is_white_def is_digit_def digits_value_def)
  have n: "JSON_stringify (JNumber (Fin 3 0)) = ''3''"
    by (simp add: eval_number)
  have c: "canon (JNumber (Fin 3 0)) = JNumber (Fin 3 0)"
    by (simp add: eval_normal)
  have t: "toISOString now0 = ''2025-01-05T09:03:07.042Z''"
    by (simp add: toISOString_def now0_def pad_def eval_number)
  have i: "course_id bca = ''c1''" by (simp add: bca_def)
  note w = C9_zero_coordinate_null_location
    [OF h1 h2 h3, of "''3''" now0, THEN conjunct2, unfolded s n c t i]
  have q: \<open>qrValue (showing bca equator) ''3'' now0 =
     ''{"courseId":"c1","semester":3,"dateTime":"2025-01-05T09:03:07.042Z","location":null}''\<close>
    unfolding w [THEN conjunct1] by (simp add: quote_def escape_char_def)
  from w [THEN conjunct2, THEN conjunct2] show ?thesis
    unfolding q by (intro conjI refl)
qed

text \<open>
  C10. For an Active course and a semester parameter in which \<open>parseInt\<close> finds no
  integer, the token is still the non-empty JSON text, with \<open>null\<close> for its semester, and
  decodes to an object whose semester is \<open>null\<close>; a page that has loaded without error
  displays this token as its code.
\<close>

theorem C10_unparsable_semester_is_null:
  assumes "course st = Some c" and "LinkStatus c = ''Active''" and "parseInt semester = NaN"
  shows "qrValue st semester now =
             ''{'' @ quote ''courseId'' @ '':'' @ quote (course_id c)
             @ '','' @ quote ''semester'' @ '':null''
             @ '','' @ quote ''dateTime'' @ '':'' @ quote (toISOString now)
             @ '','' @ quote ''location'' @ '':''
             @ JSON_stringify
                 (if truthy (latitude (location st)) \<and> truthy (longitude (location st))
                  then JObject [(''latitude'', json_of (latitude (location st))),
                                (''longitude'', json_of (longitude (location st)))]
                  else JNull)
             @ ''}''
         \<and> qrValue st semester now \<noteq> []
         \<and> JSON_parse (qrValue st semester now) =
             Some (JObject
               [(''courseId'', JString (course_id c)),
                (''semester'', JNull),
                (''dateTime'', JString (toISOString now)),
                (''location'',
                   canon (if truthy (latitude (location st)) \<and> truthy (longitude (location st))
                          then JObject [(''latitude'', json_of (latitude (location st))),
                                        (''longitude'', json_of (longitude (location st)))]
                          else JNull))])
         \<and> (\<not> loading st \<and> \<not> truthy_string (error st) \<longrightarrow>
              render st semester now =
                PageView (Programme c) (''Semester '' @ semester) (Some (qrValue st semester now))
                  False ''Active'' (currentTime st))"
proof -
  have n: "JSON_stringify (JNumber (parseInt semester)) = ''null''"
    using assms(3) by simp
  have 1: "qrValue st semester now =
             ''{'' @ quote ''courseId'' @ '':'' @ quote (course_id c)
             @ '','' @ quote ''semester'' @ '':null''
             @ '','' @ quote ''dateTime'' @ '':'' @ quote (toISOString now)
             @ '','' @ quote ''location'' @ '':''
             @ JSON_stringify
                 (if truthy (latitude (location st)) \<and> truthy (longitude (location st))
                  then JObject [(''latitude'', json_of (latitude (location st))),
                                (''longitude'', json_of (longitude (location st)))]
                  else JNull)
             @ ''}''"
    unfolding active_qrValue [OF assms(1,2)] qrObject_def stringify_token n
    by (simp only: JSON_stringify.simps append_assoc append_Cons append_Nil)
  have 2: "qrValue st semester now \<noteq> []" unfolding 1 by simp
  have c: "canon (JNumber (parseInt semester)) = JNull" using assms(3) by simp
  have 3: "JSON_parse (qrValue st semester now) =
             Some (JObject
               [(''courseId'', JString (course_id c)),
                (''semester'', JNull),
                (''dateTime'', JString (toISOString now)),
                (''location'',
                   canon (if truthy (latitude (location st)) \<and> truthy (longitude (location st))
                          then JObject [(''latitude'', json_of (latitude (location st))),
                                        (''longitude'', json_of (longitude (location st)))]
                          else JNull))])"
    unfolding active_qrValue [OF assms(1,2)] qrObject_def JSON_parse_stringify canon_token c
    by (rule refl)
  have 4: "render st semester now =
                PageView (Programme c) (''Semester '' @ semester) (Some (qrValue st semester now))
                  False ''Active'' (currentTime st)" if "\<not> loading st" "\<not> truthy_string (error st)"
    using that assms(1,2) by (simp add: render_def)
  from 4 have 5: "\<not> loading st \<and> \<not> truthy_string (error st) \<longrightarrow>
              render st semester now =
                PageView (Programme c) (''Semester '' @ semester) (Some (qrValue st semester now))
                  False ''Active'' (currentTime st)" by blast
  from 1 2 3 5 show ?thesis by (intro conjI)
qed

theorem C10_unparsable_semester_is_null_witness:
  \<open>parseInt ''third'' = NaN
   \<and> qrValue (showing bca sample1) ''third'' now0 =
       ''{"courseId":"c1","semester":null,"dateTime":"2025-01-05T09:03:07.042Z","location":{"latitude":26.1445,"longitude":91.7362}}''
   \<and> JSON_parse ''{"courseId":"c1","semester":null,"dateTime":"2025-01-05T09:03:07.042Z","location":{"latitude":26.1445,"longitude":91.7362}}''
     = Some (JObject
         [(''courseId'', JString ''c1''),
          (''semester'', JNull),
          (''dateTime'', JString ''2025-01-05T09:03:07.042Z''),
          (''location'', JObject [(''latitude'', JNumber (Fin 261445 (- 4))),
                                  (''longitude'', JNumber (Fin 917362 (- 4)))])])
   \<and> displayed_code (render (showing bca sample1) ''third'' now0)
       = Some (qrValue (showing bca sample1) ''third'' now0)\<close>
proof -
  have h1: "course (showing bca sample1) = Some bca" by (simp add: showing_def)
  have h2: "LinkStatus bca = ''Active''" by (simp add: bca_def)
  have h3: "parseInt ''third'' = NaN" by (simp add: parseInt_def is_white_def is_digit_def)
  have t: "toISOString now0 = ''2025-01-05T09:03:07.042Z''"
    by (simp add: toISOString_def now0_def pad_def eval_number)
  have i: "course_id bca = ''c1''" by (simp add: bca_def)
  have e: "\<not> loading (showing bca sample1) \<and> \<not> truthy_string (error (showing bca sample1))"
    by (simp add: showing_def truthy_string_def)
  have l: "(if truthy (latitude (location (showing bca sample1)))
               \<and> truthy (longitude (location (showing bca sample1)))
            then JObject [(''latitude'', json_of (latitude (location (showing bca sample1)))),
                          (''longitude'', json_of (longitude (location (showing bca sample1))))]
            else JNull)
           = JObject [(''latitude'', JNumber (Fin 261445 (- 4))),
                      (''longitude'', JNumber (Fin 917362 (- 4)))]"
    by (simp add: showing_def sample1_def json_of_def truthy_def truthy_number_def)
  have c: "canon (JObject [(''latitude'', JNumber (Fin 261445 (- 4))),
                           (''longitude'', JNumber (Fin 917362 (- 4)))])
           = JObject [(''latitude'', JNumber (Fin 261445 (- 4))),
                      (''longitude'', JNumber (Fin 917362 (- 4)))]"
    by (simp add: eval_normal)
  note w = C10_unparsable_semester_is_null [OF h1 h2 h3, of now0, unfolded l c t i]
  have q: \<open>qrValue (showing bca sample1) ''third'' now0 =
       ''{"courseId":"c1","semester":null,"dateTime":"2025-01-05T09:03:07.042Z","location":{"latitude":26.1445,"longitude":91.7362}}''\<close>
    unfolding w [THEN conjunct1]
    by (simp add: eval_number quote_def escape_char_def)
  from w [THEN conjunct2, THEN conjunct2, THEN conjunct2, THEN mp, OF e]
  have r: "displayed_code (render (showing bca sample1) ''third'' now0)
       = Some (qrValue (showing bca sample1) ''third'' now0)"
    by (simp only: displayed_code_def view.case)
  from w [THEN conjunct2, THEN conjunct2, THEN conjunct1]
  have p: \<open>JSON_parse ''{"courseId":"c1","semester":null,"dateTime":"2025-01-05T09:03:07.042Z","location":{"latitude":26.1445,"longitude":91.7362}}''
     = Some (JObject
         [(''courseId'', JString ''c1''),
          (''semester'', JNull),
          (''dateTime'', JString ''2025-01-05T09:03:07.042Z''),
          (''location'', JObject [(''latitude'', JNumber (Fin 261445 (- 4))),
                                  (''longitude'', JNumber (Fin 917362 (- 4)))])])\<close>
    unfolding q .
  show ?thesis by (intro conjI h3 q p r)
qed

end
